theory Spec2Isabelle
  imports Main "HOL-Library.Sublist"
begin

section \<open>Python values\<close>

text \<open>
  Study records arrive as JSON objects: a record is a \<open>dict\<close> with string keys whose
  values are \<open>None\<close>, booleans, integers, strings, lists or nested dicts.  Floats are
  left out: the masker only ever tests a value for truthiness, iterates it, or stores
  it, and none of the properties below depends on a float.  A character of a
  \<open>string\<close> stands for one code point of a Python \<open>str\<close>.
\<close>

datatype pyval =
    PNone
  | PBool bool
  | PInt int
  | PStr string
  | PList "pyval list"
  | PDict "(string \<times> pyval) list"

type_synonym study = "string \<rightharpoonup> pyval"

datatype exn = TypeError | IndexError | AttributeError | HTTPException nat

text \<open>Truthiness, as \<open>if x:\<close> and \<open>a and b\<close> test it.\<close>

fun truthy :: "pyval \<Rightarrow> bool" where
  "truthy PNone = False"
| "truthy (PBool b) = b"
| "truthy (PInt i) = (i \<noteq> 0)"
| "truthy (PStr s) = (s \<noteq> [])"
| "truthy (PList xs) = (xs \<noteq> [])"
| "truthy (PDict kvs) = (kvs \<noteq> [])"

text \<open>
  \<open>for x in v\<close>: a list yields its elements, a string its one-character substrings,
  a dict its keys; \<open>None\<close>, a boolean and an integer raise \<open>TypeError\<close>.
\<close>

fun py_iter :: "pyval \<Rightarrow> exn + pyval list" where
  "py_iter (PList xs) = Inr xs"
| "py_iter (PStr s) = Inr (map (\<lambda>c. PStr [c]) s)"
| "py_iter (PDict kvs) = Inr (map (\<lambda>kv. PStr (fst kv)) kvs)"
| "py_iter PNone = Inl TypeError"
| "py_iter (PBool b) = Inl TypeError"
| "py_iter (PInt i) = Inl TypeError"

section \<open>String helpers\<close>

text \<open>\<open>s.replace(old, '')\<close>: every non-overlapping occurrence of \<open>old\<close>, scanning from
  the left, is dropped; with an empty \<open>old\<close> the string comes back as it is.\<close>

fun str_remove :: "string \<Rightarrow> string \<Rightarrow> string" where
  "str_remove old [] = []"
| "str_remove old (c # cs) =
     (if old = [] then c # cs
      else if prefix old (c # cs) then str_remove old (drop (length old - 1) cs)
      else c # str_remove old cs)"

text \<open>The decimal digits of a natural number, most significant first.\<close>

definition digit_char :: "nat \<Rightarrow> char" where
  "digit_char d = char_of (48 + d)"

fun digits :: "nat \<Rightarrow> string" where
  "digits n = (if n < 10 then [digit_char n] else digits (n div 10) @ [digit_char (n mod 10)])"

declare digits.simps [simp del]

text \<open>\<open>f"{n:06d}"\<close> for \<open>n \<ge> 0\<close>: zero-padded on the left to a width of at least 6.\<close>

definition format_06d :: "nat \<Rightarrow> string" where
  "format_06d n = replicate (6 - length (digits n)) (CHR ''0'') @ digits n"

section \<open>The masker (\<open>SkyflowManager\<close>)\<close>

text \<open>
  \<open>token_counter\<close> starts at 0 and is only ever incremented, so it is a natural number.
\<close>

record SkyflowManager =
  token_store :: "string \<rightharpoonup> pyval"
  token_counter :: nat

definition init_manager :: SkyflowManager where
  "init_manager = \<lparr>token_store = Map.empty, token_counter = 0\<rparr>"

definition make_token :: "nat \<Rightarrow> string" where
  "make_token n = ''sky_'' @ format_06d n"

definition generate_token :: "SkyflowManager \<Rightarrow> string \<times> SkyflowManager" where
  "generate_token m =
     (let m1 = m\<lparr>token_counter := token_counter m + 1\<rparr>
      in (make_token (token_counter m1), m1))"

definition tagged :: "string \<Rightarrow> pyval" where
  "tagged token = PStr (''[TOKENIZED:'' @ token @ '']'')"

text \<open>One pass of the loop body \<open>token = ...; token_store[token] = x; append(...)\<close>.\<close>

definition tokenize_value :: "pyval \<Rightarrow> SkyflowManager \<Rightarrow> pyval \<times> SkyflowManager" where
  "tokenize_value x m =
     (case generate_token m of (token, m1) \<Rightarrow>
        (tagged token, m1\<lparr>token_store := (token_store m1)(token \<mapsto> x)\<rparr>))"

fun tokenize_items :: "pyval list \<Rightarrow> SkyflowManager \<Rightarrow> pyval list \<times> SkyflowManager" where
  "tokenize_items [] m = ([], m)"
| "tokenize_items (x # xs) m =
     (case tokenize_value x m of (t, m1) \<Rightarrow>
        (case tokenize_items xs m1 of (ts, m2) \<Rightarrow> (t # ts, m2)))"

text \<open>The block for \<open>lead_sponsor\<close>: the value is tokenized as a whole.\<close>

definition tokenize_scalar_field :: "string \<Rightarrow> study \<times> SkyflowManager \<Rightarrow> study \<times> SkyflowManager" where
  "tokenize_scalar_field f sm =
     (case sm of (tokenized, m) \<Rightarrow>
        (case tokenized f of
           None \<Rightarrow> (tokenized, m)
         | Some v \<Rightarrow>
             if truthy v
             then (case tokenize_value v m of (t, m1) \<Rightarrow> (tokenized(f \<mapsto> t), m1))
             else (tokenized, m)))"

text \<open>The block for \<open>investigators\<close> and for \<open>sites\<close>: the value is iterated, and the
  iteration raises on a value that is not iterable.\<close>

definition tokenize_seq_field ::
  "string \<Rightarrow> study \<times> SkyflowManager \<Rightarrow> (exn + study) \<times> SkyflowManager" where
  "tokenize_seq_field f sm =
     (case sm of (tokenized, m) \<Rightarrow>
        (case tokenized f of
           None \<Rightarrow> (Inr tokenized, m)
         | Some v \<Rightarrow>
             if truthy v
             then (case py_iter v of
                     Inl e \<Rightarrow> (Inl e, m)
                   | Inr items \<Rightarrow>
                       (case tokenize_items items m of
                          (ts, m1) \<Rightarrow> (Inr (tokenized(f \<mapsto> PList ts)), m1)))
             else (Inr tokenized, m)))"

definition tokenize_study :: "study \<Rightarrow> SkyflowManager \<Rightarrow> (exn + study) \<times> SkyflowManager" where
  "tokenize_study study m =
     (let tokenized = study(''_skyflow_protected'' \<mapsto> PBool True) in
      case tokenize_seq_field ''investigators''
             (tokenize_scalar_field ''lead_sponsor'' (tokenized, m)) of
        (Inl e, m1) \<Rightarrow> (Inl e, m1)
      | (Inr t1, m1) \<Rightarrow> tokenize_seq_field ''sites'' (t1, m1))"

text \<open>\<open>tokenize_batch\<close>: an exception leaves the loop, and the tokens minted so far
  stay in the vault.\<close>

fun tokenize_batch :: "study list \<Rightarrow> SkyflowManager \<Rightarrow> (exn + study list) \<times> SkyflowManager" where
  "tokenize_batch [] m = (Inr [], m)"
| "tokenize_batch (study # studies) m =
     (case tokenize_study study m of
        (Inl e, m1) \<Rightarrow> (Inl e, m1)
      | (Inr t, m1) \<Rightarrow>
          (case tokenize_batch studies m1 of
             (Inl e, m2) \<Rightarrow> (Inl e, m2)
           | (Inr ts, m2) \<Rightarrow> (Inr (t # ts), m2)))"

text \<open>Detokenization.  \<open>extract_token\<close> is the chain of two \<open>replace\<close> calls.\<close>

definition extract_token :: "string \<Rightarrow> string" where
  "extract_token s = str_remove '']'' (str_remove ''[TOKENIZED:'' s)"

definition is_tokenized :: "pyval \<Rightarrow> bool" where
  "is_tokenized v = (case v of PStr s \<Rightarrow> prefix ''[TOKENIZED:'' s | _ \<Rightarrow> False)"

definition detokenize_value :: "SkyflowManager \<Rightarrow> pyval \<Rightarrow> pyval" where
  "detokenize_value m v =
     (case v of
        PStr s \<Rightarrow>
          if prefix ''[TOKENIZED:'' s
          then (case token_store m (extract_token s) of None \<Rightarrow> v | Some orig \<Rightarrow> orig)
          else v
      | _ \<Rightarrow> v)"

definition detokenize_scalar_field :: "SkyflowManager \<Rightarrow> string \<Rightarrow> study \<Rightarrow> study" where
  "detokenize_scalar_field m f detokenized =
     (case detokenized f of
        None \<Rightarrow> detokenized
      | Some sponsor \<Rightarrow>
          if is_tokenized sponsor
          then detokenized(f \<mapsto> detokenize_value m sponsor)
          else detokenized)"

definition detokenize_seq_field :: "SkyflowManager \<Rightarrow> string \<Rightarrow> study \<Rightarrow> exn + study" where
  "detokenize_seq_field m f detokenized =
     (case detokenized f of
        None \<Rightarrow> Inr detokenized
      | Some v \<Rightarrow>
          (case py_iter v of
             Inl e \<Rightarrow> Inl e
           | Inr items \<Rightarrow> Inr (detokenized(f \<mapsto> PList (map (detokenize_value m) items)))))"

text \<open>\<open>detokenize_study\<close> assigns to nothing of \<open>self\<close>; the manager is returned as
  it was passed in, beside the result.\<close>

definition detokenize_study :: "study \<Rightarrow> SkyflowManager \<Rightarrow> (exn + study) \<times> SkyflowManager" where
  "detokenize_study study m =
     (case detokenize_seq_field m ''investigators''
             (detokenize_scalar_field m ''lead_sponsor'' study) of
        Inl e \<Rightarrow> (Inl e, m)
      | Inr d1 \<Rightarrow>
          (case detokenize_seq_field m ''sites'' d1 of
             Inl e \<Rightarrow> (Inl e, m)
           | Inr d2 \<Rightarrow> (Inr (d2(''_skyflow_protected'' \<mapsto> PBool False)), m)))"

text \<open>\<open>get_stats\<close>, without the constant \<open>status\<close> string.\<close>

record stats =
  total_tokens :: nat
  vault_size :: nat

definition get_stats :: "SkyflowManager \<Rightarrow> stats" where
  "get_stats m = \<lparr>total_tokens = token_counter m, vault_size = card (dom (token_store m))\<rparr>"

text \<open>The number a digit string denotes: the left inverse of the formatting, used to
  show that distinct counters give distinct tokens.\<close>

definition dec_val :: "string \<Rightarrow> nat" where
  "dec_val s = foldl (\<lambda>a c. 10 * a + (of_char c - 48)) 0 s"

text \<open>Bookkeeping for the proofs: between two states of the manager the vault changed
  only at the tokens minted in between, and each of those has an entry.\<close>

definition frame_ok :: "SkyflowManager \<Rightarrow> SkyflowManager \<Rightarrow> bool" where
  "frame_ok m m' =
     (token_counter m \<le> token_counter m' \<and>
      (\<forall>k. k \<notin> make_token ` {token_counter m <.. token_counter m'} \<longrightarrow>
           token_store m' k = token_store m k) \<and>
      make_token ` {token_counter m <.. token_counter m'} \<subseteq> dom (token_store m'))"

section \<open>Harness for the round trip\<close>

text \<open>\<open>unmask(mask([record]))[0]\<close>: the record is masked as a batch of one, and the first
  record of the result is unmasked in the state the masking left.\<close>

definition mask_then_unmask :: "study \<Rightarrow> SkyflowManager \<Rightarrow> exn + study" where
  "mask_then_unmask r m =
     (case tokenize_batch [r] m of
        (Inl e, m1) \<Rightarrow> Inl e
      | (Inr ts, m1) \<Rightarrow>
          (case ts of [] \<Rightarrow> Inl IndexError | t # rest \<Rightarrow> fst (detokenize_study t m1)))"

text \<open>A field that the two loops can iterate: absent, or a list, a string or a dict.\<close>

definition iterable_or_absent :: "pyval option \<Rightarrow> bool" where
  "iterable_or_absent ov =
     (case ov of
        None \<Rightarrow> True
      | Some v \<Rightarrow> (case py_iter v of Inl e \<Rightarrow> False | Inr items \<Rightarrow> True))"

text \<open>A value that matches the token pattern and whose token has no entry in the vault.\<close>

definition unknown_token :: "SkyflowManager \<Rightarrow> pyval \<Rightarrow> bool" where
  "unknown_token m v =
     (case v of
        PStr s \<Rightarrow> prefix ''[TOKENIZED:'' s \<and> token_store m (extract_token s) = None
      | _ \<Rightarrow> False)"

section \<open>Sequences of operations on one manager\<close>




text \<open>\<open>n\<close> calls of \<open>_generate_token\<close> in a row, with the tokens they return.\<close>

fun mint_tokens :: "nat \<Rightarrow> SkyflowManager \<Rightarrow> string list \<times> SkyflowManager" where
  "mint_tokens 0 m = ([], m)"
| "mint_tokens (Suc n) m =
     (case generate_token m of (token, m1) \<Rightarrow>
        (case mint_tokens n m1 of (tokens, m2) \<Rightarrow> (token # tokens, m2)))"

section \<open>The in-memory backend (\<open>fastapi_backend.py\<close>)\<close>

text \<open>
  \<open>DATA_STORE\<close> holds the current batch and its metadata.  The records of the responses
  keep the counts and leave out the constant strings (\<open>status\<close>, \<open>message\<close>, \<open>security\<close>,
  \<open>model\<close>); their fields carry a prefix, since several responses share a key.  The
  timestamp \<open>datetime.utcnow().isoformat()\<close> is a parameter \<open>now\<close>.
\<close>

record metadata =
  md_total_studies :: nat
  md_skyflow_protected :: nat
  md_last_updated :: string
  md_condition :: string
  md_skyflow_tokens :: nat

record DATA_STORE =
  studies :: "study list"
  metadata :: "metadata option"

definition init_store :: DATA_STORE where
  "init_store = \<lparr>studies = [], metadata = None\<rparr>"

record load_response =
  lr_studies_loaded :: nat
  lr_skyflow_protected :: nat

record studies_response =
  sr_total :: nat
  sr_returned :: int
  sr_studies :: "study list"

record ask_response =
  ar_question :: string
  ar_answer :: string
  ar_total_studies :: nat
  ar_analyzed_studies :: nat

text \<open>The slice \<open>xs[:limit]\<close>; a negative \<open>limit\<close> counts from the end.\<close>

definition py_slice_to :: "'a list \<Rightarrow> int \<Rightarrow> 'a list" where
  "py_slice_to xs limit =
     (if limit < 0 then take (length xs - nat (- limit)) xs else take (nat limit) xs)"

text \<open>The handlers' \<open>except HTTPException: raise\<close> followed by
  \<open>except Exception as e: raise HTTPException(status_code=500, ...)\<close>.\<close>

definition reraise_http :: "exn + 'a \<Rightarrow> exn + 'a" where
  "reraise_http r =
     (case r of
        Inl (HTTPException code) \<Rightarrow> Inl (HTTPException code)
      | Inl e \<Rightarrow> Inl (HTTPException 500)
      | Inr x \<Rightarrow> Inr x)"

text \<open>The body of the \<open>try\<close> of \<open>load_data\<close>.\<close>

definition load_data_try ::
  "string \<Rightarrow> string \<Rightarrow> study list \<Rightarrow> DATA_STORE \<times> SkyflowManager \<Rightarrow>
     (exn + load_response) \<times> DATA_STORE \<times> SkyflowManager" where
  "load_data_try now cond batch st =
     (case st of (ds, sk) \<Rightarrow>
        if batch = [] then (Inl (HTTPException 400), ds, sk)
        else
          (case tokenize_batch batch sk of
             (Inl e, sk1) \<Rightarrow> (Inl e, ds, sk1)
           | (Inr protected_studies, sk1) \<Rightarrow>
               (Inr \<lparr>lr_studies_loaded = length batch,
                     lr_skyflow_protected = length protected_studies\<rparr>,
                \<lparr>studies = protected_studies,
                  metadata = Some
                    \<lparr>md_total_studies = length batch,
                      md_skyflow_protected = length protected_studies,
                      md_last_updated = now,
                      md_condition = cond,
                      md_skyflow_tokens = total_tokens (get_stats sk1)\<rparr>\<rparr>,
                sk1)))"

text \<open>
  \<open>load_data\<close> has the single clause \<open>except Exception as e\<close>, with no
  \<open>except HTTPException: raise\<close> before it: whatever the body raises, its own
  \<open>HTTPException(400)\<close> included, leaves as \<open>HTTPException(500)\<close>.
\<close>

definition load_data ::
  "string \<Rightarrow> string \<Rightarrow> study list \<Rightarrow> DATA_STORE \<times> SkyflowManager \<Rightarrow>
     (exn + load_response) \<times> DATA_STORE \<times> SkyflowManager" where
  "load_data now cond batch st =
     (case load_data_try now cond batch st of
        (Inl e, st1) \<Rightarrow> (Inl (HTTPException 500), st1)
      | (Inr r, st1) \<Rightarrow> (Inr r, st1))"

definition get_studies_try :: "int \<Rightarrow> DATA_STORE \<Rightarrow> exn + studies_response" where
  "get_studies_try limit ds =
     (if studies ds = [] then Inl (HTTPException 404)
      else Inr \<lparr>sr_total = length (studies ds),
                sr_returned = min (int (length (studies ds))) limit,
                sr_studies = py_slice_to (studies ds) limit\<rparr>)"

text \<open>\<open>get_studies(limit=50, condition=None)\<close>; the handler never reads \<open>condition\<close>.\<close>

definition get_studies :: "int \<Rightarrow> DATA_STORE \<Rightarrow> exn + studies_response" where
  "get_studies limit ds = reraise_http (get_studies_try limit ds)"

text \<open>
  The question-answering collaborator: the prompt it is sent is built from the two
  counts, the dump of the sample and the question; it answers with a text or raises.
\<close>

record prompt =
  p_total :: nat
  p_analyzing :: nat
  p_data :: "study list"
  p_question :: string

definition ask_claude_try ::
  "(prompt \<Rightarrow> exn + string) \<Rightarrow> string \<Rightarrow> DATA_STORE \<Rightarrow> exn + ask_response" where
  "ask_claude_try client question ds =
     (if question = [] then Inl (HTTPException 400)
      else if studies ds = [] then Inl (HTTPException 404)
      else
        (let sample = take 40 (studies ds) in
         case client \<lparr>p_total = length (studies ds), p_analyzing = length sample,
                      p_data = sample, p_question = question\<rparr> of
           Inl e \<Rightarrow> Inl e
         | Inr answer \<Rightarrow>
             Inr \<lparr>ar_question = question, ar_answer = answer,
                   ar_total_studies = length (studies ds),
                   ar_analyzed_studies = length sample\<rparr>))"

definition ask_claude ::
  "(prompt \<Rightarrow> exn + string) option \<Rightarrow> string \<Rightarrow> DATA_STORE \<Rightarrow> exn + ask_response" where
  "ask_claude claude_client question ds =
     (case claude_client of
        None \<Rightarrow> Inl (HTTPException 503)
      | Some client \<Rightarrow> reraise_http (ask_claude_try client question ds))"

text \<open>Two loads and a listing, from the empty store and a fresh manager.\<close>

definition load_load_list ::
  "study list \<Rightarrow> study list \<Rightarrow> int \<Rightarrow> exn + studies_response" where
  "load_load_list a b limit =
     (case load_data [] [] a (init_store, init_manager) of
        (Inl e, st1) \<Rightarrow> Inl e
      | (Inr r1, st1) \<Rightarrow>
          (case load_data [] [] b st1 of
             (Inl e, st2) \<Rightarrow> Inl e
           | (Inr r2, ds2, sk2) \<Rightarrow> get_studies limit ds2))"

section \<open>The cache-backed backend (\<open>full_test_backend.py\<close>)\<close>

text \<open>
  The Redis server is a map from keys to the values whose JSON text was stored: a batch
  (the handlers never look inside a record, so records are of any type \<open>'a\<close>) or the
  metadata.  \<open>json.loads (json.dumps x)\<close> is taken to be \<open>x\<close>.  The one-hour expiry is not
  modelled (every read below happens before it), nor is a failure of the server.  The
  handlers return a status code with their body instead of raising.
\<close>

datatype 'a cached = Batch "'a list" | Meta nat string string

type_synonym 'a redis = "string \<rightharpoonup> 'a cached"

text \<open>\<open>str.lower\<close>, on the code points below 256: the letters A to Z, and the
  capital letters of Latin-1 (192 to 222, without the multiplication sign 215).\<close>

definition lower_char :: "char \<Rightarrow> char" where
  "lower_char c =
     (let n = (of_char c :: nat)
      in if (65 \<le> n \<and> n \<le> 90) \<or> (192 \<le> n \<and> n \<le> 222 \<and> n \<noteq> 215)
         then char_of (n + 32) else c)"

definition lower :: "string \<Rightarrow> string" where
  "lower s = map lower_char s"

datatype cache_body = Cached nat | CacheError

text \<open>\<open>cache_data\<close>: \<open>cond\<close> is \<open>data.get('condition', 'unknown')\<close> and \<open>batch\<close> is
  \<open>data.get('studies', [])\<close>.\<close>

definition cache_data ::
  "string \<Rightarrow> string \<Rightarrow> 'a list \<Rightarrow> 'a redis option \<Rightarrow> (nat \<times> cache_body) \<times> 'a redis option" where
  "cache_data now cond batch redis_client =
     (case redis_client of
        None \<Rightarrow> ((503, CacheError), None)
      | Some rd \<Rightarrow>
          if batch = [] then ((400, CacheError), Some rd)
          else
            (let rd1 = rd(''trials:'' @ lower cond \<mapsto> Batch batch);
                 rd2 = rd1(''trials:all'' \<mapsto> Batch batch);
                 rd3 = rd2(''trials:metadata'' \<mapsto> Meta (length batch) now cond)
             in ((200, Cached (length batch)), Some rd3)))"

datatype 'a studies_body = Studies nat int "'a list" | StudiesError

text \<open>\<open>get_studies\<close> of the cache-backed variant; a key that holds the metadata gives a
  dict, which cannot be sliced.\<close>

definition cached_get_studies ::
  "string option \<Rightarrow> int \<Rightarrow> 'a redis option \<Rightarrow> nat \<times> 'a studies_body" where
  "cached_get_studies cond limit redis_client =
     (case redis_client of
        None \<Rightarrow> (503, StudiesError)
      | Some rd \<Rightarrow>
          (let key = (case cond of
                        None \<Rightarrow> ''trials:all''
                      | Some c \<Rightarrow> if c = [] then ''trials:all'' else ''trials:'' @ lower c)
           in case rd key of
                None \<Rightarrow> (404, StudiesError)
              | Some (Meta n t c) \<Rightarrow> (500, StudiesError)
              | Some (Batch cached_studies) \<Rightarrow>
                  (200, Studies (length cached_studies)
                          (min (int (length cached_studies)) limit)
                          (py_slice_to cached_studies limit))))"

datatype ask_body = Answer ask_response | AskError

record 'a cached_prompt =
  cp_total :: nat
  cp_analyzing :: nat
  cp_data :: "'a list"
  cp_question :: string

definition cached_ask_claude ::
  "('a cached_prompt \<Rightarrow> exn + string) option \<Rightarrow> string \<Rightarrow> 'a redis option \<Rightarrow> nat \<times> ask_body" where
  "cached_ask_claude claude_client question redis_client =
     (case redis_client of
        None \<Rightarrow> (503, AskError)
      | Some rd \<Rightarrow>
          (case claude_client of
             None \<Rightarrow> (503, AskError)
           | Some client \<Rightarrow>
               if question = [] then (400, AskError)
               else
                 (case rd ''trials:all'' of
                    None \<Rightarrow> (404, AskError)
                  | Some (Meta n t c) \<Rightarrow> (500, AskError)
                  | Some (Batch cached_studies) \<Rightarrow>
                      (let sample = take 40 cached_studies in
                       case client \<lparr>cp_total = length cached_studies,
                                    cp_analyzing = length sample,
                                    cp_data = sample, cp_question = question\<rparr> of
                         Inl e \<Rightarrow> (500, AskError)
                       | Inr answer \<Rightarrow>
                           (200, Answer \<lparr>ar_question = question, ar_answer = answer,
                                          ar_total_studies = length cached_studies,
                                          ar_analyzed_studies = length sample\<rparr>)))))"

section \<open>\<open>tokenize_batch\<close> on a store of objects\<close>

text \<open>
  Whether \<open>tokenize_batch\<close> changes its input depends on which objects it writes to, so
  here lists and dicts are objects in a store, addressed by their index, and a value is
  immutable or a reference.  A dict is its list of items, in insertion order.  The vault
  and the counter are the manager's own; the vault keeps the value it is given, which
  may be a reference.  The lists that the function builds while it runs
  (\<open>tokenized_investigators\<close>, \<open>tokenized_sites\<close>, \<open>tokenized_studies\<close>) are not reachable
  from anywhere else until they are assigned or returned, and enter the store then.
\<close>

datatype hval = HNone | HBool bool | HInt int | HStr string | HRef nat

datatype hobj = HList "hval list" | HDict "(string \<times> hval) list"

type_synonym heap = "hobj list"

record heap_manager =
  hm_store :: "string \<rightharpoonup> hval"
  hm_counter :: nat

definition heap_get :: "heap \<Rightarrow> nat \<Rightarrow> hobj option" where
  "heap_get h a = (if a < length h then Some (h ! a) else None)"

definition heap_alloc :: "hobj \<Rightarrow> heap \<Rightarrow> nat \<times> heap" where
  "heap_alloc obj h = (length h, h @ [obj])"

text \<open>\<open>d[k] = v\<close>: an existing key keeps its place, a new key goes last.\<close>

fun items_set :: "string \<Rightarrow> hval \<Rightarrow> (string \<times> hval) list \<Rightarrow> (string \<times> hval) list" where
  "items_set k v [] = [(k, v)]"
| "items_set k v (p # ps) = (if fst p = k then (k, v) # ps else p # items_set k v ps)"

definition dict_set :: "nat \<Rightarrow> string \<Rightarrow> hval \<Rightarrow> heap \<Rightarrow> heap" where
  "dict_set a k v h =
     (case heap_get h a of Some (HDict kvs) \<Rightarrow> h[a := HDict (items_set k v kvs)] | _ \<Rightarrow> h)"

definition dict_get :: "heap \<Rightarrow> nat \<Rightarrow> string \<Rightarrow> hval option" where
  "dict_get h a k = (case heap_get h a of Some (HDict kvs) \<Rightarrow> map_of kvs k | _ \<Rightarrow> None)"

definition h_truthy :: "heap \<Rightarrow> hval \<Rightarrow> bool" where
  "h_truthy h v =
     (case v of
        HNone \<Rightarrow> False
      | HBool b \<Rightarrow> b
      | HInt i \<Rightarrow> i \<noteq> 0
      | HStr s \<Rightarrow> s \<noteq> []
      | HRef a \<Rightarrow>
          (case heap_get h a of
             Some (HList xs) \<Rightarrow> xs \<noteq> []
           | Some (HDict kvs) \<Rightarrow> kvs \<noteq> []
           | None \<Rightarrow> False))"

definition h_iter :: "heap \<Rightarrow> hval \<Rightarrow> exn + hval list" where
  "h_iter h v =
     (case v of
        HStr s \<Rightarrow> Inr (map (\<lambda>c. HStr [c]) s)
      | HRef a \<Rightarrow>
          (case heap_get h a of
             Some (HList xs) \<Rightarrow> Inr xs
           | Some (HDict kvs) \<Rightarrow> Inr (map (\<lambda>kv. HStr (fst kv)) kvs)
           | None \<Rightarrow> Inl TypeError)
      | _ \<Rightarrow> Inl TypeError)"

definition h_tokenize_value :: "hval \<Rightarrow> heap_manager \<Rightarrow> hval \<times> heap_manager" where
  "h_tokenize_value x m =
     (let c = hm_counter m + 1; token = make_token c
      in (HStr (''[TOKENIZED:'' @ token @ '']''),
          m\<lparr>hm_counter := c, hm_store := (hm_store m)(token \<mapsto> x)\<rparr>))"

fun h_tokenize_items :: "hval list \<Rightarrow> heap_manager \<Rightarrow> hval list \<times> heap_manager" where
  "h_tokenize_items [] m = ([], m)"
| "h_tokenize_items (x # xs) m =
     (case h_tokenize_value x m of (t, m1) \<Rightarrow>
        (case h_tokenize_items xs m1 of (ts, m2) \<Rightarrow> (t # ts, m2)))"

text \<open>The three blocks of the loop body, on the copy at address \<open>t\<close>.\<close>

definition h_scalar_field :: "string \<Rightarrow> nat \<Rightarrow> heap \<times> heap_manager \<Rightarrow> heap \<times> heap_manager" where
  "h_scalar_field f t hm =
     (case hm of (h, m) \<Rightarrow>
        (case dict_get h t f of
           None \<Rightarrow> (h, m)
         | Some v \<Rightarrow>
             if h_truthy h v
             then (case h_tokenize_value v m of (tok, m1) \<Rightarrow> (dict_set t f tok h, m1))
             else (h, m)))"

definition h_seq_field ::
  "string \<Rightarrow> nat \<Rightarrow> heap \<times> heap_manager \<Rightarrow> exn option \<times> heap \<times> heap_manager" where
  "h_seq_field f t hm =
     (case hm of (h, m) \<Rightarrow>
        (case dict_get h t f of
           None \<Rightarrow> (None, h, m)
         | Some v \<Rightarrow>
             if h_truthy h v
             then (case h_iter h v of
                     Inl e \<Rightarrow> (Some e, h, m)
                   | Inr items \<Rightarrow>
                       (case h_tokenize_items items m of (ts, m1) \<Rightarrow>
                          (case heap_alloc (HList ts) h of (l, h1) \<Rightarrow>
                             (None, dict_set t f (HRef l) h1, m1))))
             else (None, h, m)))"

text \<open>
  One pass of the loop: \<open>study.copy()\<close> makes a new dict with the same items (a value that
  is no object has no \<open>copy\<close>; a list has one, and then rejects the string key), and
  every assignment is to that copy.
\<close>

definition h_tokenize_study ::
  "hval \<Rightarrow> heap \<times> heap_manager \<Rightarrow> (exn + nat) \<times> heap \<times> heap_manager" where
  "h_tokenize_study study hm =
     (case hm of (h, m) \<Rightarrow>
        (case study of
           HRef s \<Rightarrow>
             (case heap_get h s of
                None \<Rightarrow> (Inl TypeError, h, m)
              | Some (HList xs) \<Rightarrow>
                  (case heap_alloc (HList xs) h of (t, h1) \<Rightarrow> (Inl TypeError, h1, m))
              | Some (HDict kvs) \<Rightarrow>
                  (case heap_alloc (HDict kvs) h of (t, h1) \<Rightarrow>
                     (case h_seq_field ''investigators'' t
                             (h_scalar_field ''lead_sponsor'' t
                                (dict_set t ''_skyflow_protected'' (HBool True) h1, m)) of
                        (Some e, h2, m2) \<Rightarrow> (Inl e, h2, m2)
                      | (None, h2, m2) \<Rightarrow>
                          (case h_seq_field ''sites'' t (h2, m2) of
                             (Some e, h3, m3) \<Rightarrow> (Inl e, h3, m3)
                           | (None, h3, m3) \<Rightarrow> (Inr t, h3, m3)))))
         | _ \<Rightarrow> (Inl AttributeError, h, m)))"

fun h_tokenize_loop ::
  "hval list \<Rightarrow> heap \<times> heap_manager \<Rightarrow> (exn + nat list) \<times> heap \<times> heap_manager" where
  "h_tokenize_loop [] hm = (Inr [], hm)"
| "h_tokenize_loop (study # rest) hm =
     (case h_tokenize_study study hm of
        (Inl e, hm1) \<Rightarrow> (Inl e, hm1)
      | (Inr t, hm1) \<Rightarrow>
          (case h_tokenize_loop rest hm1 of
             (Inl e, hm2) \<Rightarrow> (Inl e, hm2)
           | (Inr ts, hm2) \<Rightarrow> (Inr (t # ts), hm2)))"

text \<open>\<open>tokenize_batch(studies)\<close>: the result is the address of the new list.\<close>

definition h_tokenize_batch ::
  "hval \<Rightarrow> heap \<times> heap_manager \<Rightarrow> (exn + nat) \<times> heap \<times> heap_manager" where
  "h_tokenize_batch batch hm =
     (case h_iter (fst hm) batch of
        Inl e \<Rightarrow> (Inl e, hm)
      | Inr elems \<Rightarrow>
          (case h_tokenize_loop elems hm of
             (Inl e, hm1) \<Rightarrow> (Inl e, hm1)
           | (Inr ts, h1, m1) \<Rightarrow>
               (case heap_alloc (HList (map HRef ts)) h1 of (l, h2) \<Rightarrow> (Inr l, h2, m1))))"

text \<open>The object at an address is a dict.\<close>

definition is_dict_at :: "heap \<Rightarrow> nat \<Rightarrow> bool" where
  "is_dict_at h a = (case heap_get h a of Some (HDict kvs) \<Rightarrow> True | _ \<Rightarrow> False)"

section \<open>Token format\<close>

lemma digit_char_simps:
  "digit_char 0 = CHR ''0''" "digit_char 1 = CHR ''1''" "digit_char 2 = CHR ''2''"
  "digit_char 3 = CHR ''3''" "digit_char 4 = CHR ''4''" "digit_char 5 = CHR ''5''"
  "digit_char 6 = CHR ''6''" "digit_char 7 = CHR ''7''" "digit_char 8 = CHR ''8''"
  "digit_char 9 = CHR ''9''" "digit_char (Suc 0) = CHR ''1''"
  by code_simp+

lemma digits_million: "digits 1000000 = ''1000000''"
  by (simp add: digits.simps [of 1000000] digits.simps [of 100000] digits.simps [of 10000]
      digits.simps [of 1000] digits.simps [of 100] digits.simps [of 10] digits.simps [of "Suc 0"]
      digit_char_simps)

lemma make_token_million: "make_token 1000000 = ''sky_1000000''"
  by (simp add: make_token_def format_06d_def digits_million)

lemma digit_char_no_bracket:
  assumes "d < 10"
  shows "digit_char d \<noteq> CHR ''['' \<and> digit_char d \<noteq> CHR '']''"
proof -
  have "(of_char (digit_char d) :: nat) = 48 + d"
    using assms by (simp add: digit_char_def)
  moreover have "(of_char (CHR ''['') :: nat) = 91" "(of_char (CHR '']'') :: nat) = 93"
    by simp_all
  ultimately show ?thesis using assms by auto
qed

lemma digits_no_bracket: "CHR ''['' \<notin> set (digits n) \<and> CHR '']'' \<notin> set (digits n)"
proof (induction n rule: digits.induct)
  case (1 n)
  show ?case
  proof (cases "n < 10")
    case True
    then show ?thesis using digit_char_no_bracket [of n] by (auto simp add: digits.simps [of n])
  next
    case False
    have "n mod 10 < 10" by simp
    from digit_char_no_bracket [OF this] False 1 show ?thesis
      by (auto simp add: digits.simps [of n])
  qed
qed

lemma make_token_no_bracket:
  "CHR ''['' \<notin> set (make_token n)" "CHR '']'' \<notin> set (make_token n)"
  using digits_no_bracket [of n] by (auto simp add: make_token_def format_06d_def)

lemma dec_val_snoc: "dec_val (s @ [c]) = 10 * dec_val s + (of_char c - 48)"
  by (simp add: dec_val_def)

lemma of_digit_char: "d < 10 \<Longrightarrow> of_char (digit_char d) - 48 = (d::nat)"
  by (simp add: digit_char_def)

lemma dec_val_digits: "dec_val (digits n) = n"
proof (induction n rule: digits.induct)
  case (1 n)
  show ?case
  proof (cases "n < 10")
    case True
    then show ?thesis by (simp add: digits.simps [of n] dec_val_def of_digit_char)
  next
    case False
    then show ?thesis using 1 by (simp add: digits.simps [of n] dec_val_snoc of_digit_char)
  qed
qed

lemma dec_val_zeros: "dec_val (replicate k (CHR ''0'') @ s) = dec_val s"
proof -
  have "foldl (\<lambda>a c. 10 * a + (of_char c - 48)) 0 (replicate k (CHR ''0'')) = (0::nat)"
    by (induction k) simp_all
  then show ?thesis by (simp add: dec_val_def)
qed

lemma dec_val_format: "dec_val (format_06d n) = n"
  by (simp add: format_06d_def dec_val_zeros dec_val_digits)

lemma make_token_inj: "make_token a = make_token b \<Longrightarrow> a = b"
  by (metis make_token_def same_append_eq dec_val_format)

lemma length_digits_lt: "n < 10 ^ k \<Longrightarrow> 0 < k \<Longrightarrow> length (digits n) \<le> k"
proof (induction n arbitrary: k rule: digits.induct)
  case (1 n)
  show ?case
  proof (cases "n < 10")
    case True
    then show ?thesis using 1(3) by (simp add: digits.simps [of n])
  next
    case False
    then obtain j where k: "k = Suc j" using 1(3) by (cases k) auto
    with False 1(2) have j: "0 < j" by (cases j) auto
    from 1(2) k have "n div 10 < 10 ^ j" by (simp add: less_mult_imp_div_less mult.commute)
    with 1(1) [OF False this j] False k show ?thesis by (simp add: digits.simps [of n])
  qed
qed

lemma length_format_06d: "n < 1000000 \<Longrightarrow> length (format_06d n) = 6"
  using length_digits_lt [of n 6] by (simp add: format_06d_def)

section \<open>Masking and unmasking values\<close>

lemma str_remove_no_occ:
  "c0 \<notin> set s \<Longrightarrow> str_remove (c0 # rest) (s @ t) = s @ str_remove (c0 # rest) t"
  by (induction s) auto

lemma str_remove_tag_prefix:
  "str_remove ''[TOKENIZED:'' (''[TOKENIZED:'' @ s) = str_remove ''[TOKENIZED:'' s"
  by simp

lemma str_remove_close: "str_remove '']'' '']'' = []"
  by simp

lemma extract_token_tagged:
  assumes "CHR ''['' \<notin> set t" "CHR '']'' \<notin> set t"
  shows "extract_token (''[TOKENIZED:'' @ t @ '']'') = t"
proof -
  have "str_remove ''[TOKENIZED:'' (''[TOKENIZED:'' @ t @ '']'') = str_remove ''[TOKENIZED:'' (t @ '']'')"
    by (rule str_remove_tag_prefix)
  also have "\<dots> = t @ str_remove ''[TOKENIZED:'' '']''"
    using assms(1) by (rule str_remove_no_occ)
  also have "\<dots> = t @ '']''" by simp
  finally have 1: "str_remove ''[TOKENIZED:'' (''[TOKENIZED:'' @ t @ '']'') = t @ '']''" .
  have "str_remove '']'' (t @ '']'') = t @ str_remove '']'' '']''"
    using assms(2) by (rule str_remove_no_occ)
  then have 2: "str_remove '']'' (t @ '']'') = t" by simp
  show ?thesis unfolding extract_token_def 1 by (rule 2)
qed

lemma extract_make_token: "extract_token (''[TOKENIZED:'' @ make_token n @ '']'') = make_token n"
  by (rule extract_token_tagged) (rule make_token_no_bracket)+

lemma detokenize_tagged:
  "token_store m (make_token n) = Some v \<Longrightarrow> detokenize_value m (tagged (make_token n)) = v"
  by (simp add: detokenize_value_def tagged_def extract_make_token [simplified])

lemma is_tokenized_tagged: "is_tokenized (tagged t)"
  by (simp add: is_tokenized_def tagged_def)

lemma tokenize_value_eq:
  "tokenize_value x m =
     (tagged (make_token (Suc (token_counter m))),
      m\<lparr>token_counter := Suc (token_counter m),
        token_store := (token_store m)(make_token (Suc (token_counter m)) \<mapsto> x)\<rparr>)"
  by (simp add: tokenize_value_def generate_token_def Let_def)

lemma make_token_notin:
  "j \<le> c \<Longrightarrow> make_token j \<notin> make_token ` {c <.. d}"
proof
  assume "j \<le> c" and "make_token j \<in> make_token ` {c <.. d}"
  then obtain i where "i \<in> {c <.. d}" and "make_token j = make_token i" by auto
  then have "j = i" and "c < i" by (auto dest: make_token_inj)
  with \<open>j \<le> c\<close> show False by simp
qed

lemma make_token_in_dom:
  assumes "make_token ` {c <.. d} \<subseteq> dom s" "c < j" "j \<le> d"
  shows "make_token j \<in> dom s"
proof -
  from assms(2,3) have "j \<in> {c <.. d}" by simp
  then have "make_token j \<in> make_token ` {c <.. d}" by (rule imageI)
  with assms(1) show ?thesis by (rule subsetD)
qed

lemma frame_ok_refl: "frame_ok m m"
  by (simp add: frame_ok_def)

lemma frame_ok_trans:
  assumes "frame_ok a b" "frame_ok b c"
  shows "frame_ok a c"
proof -
  have le: "token_counter a \<le> token_counter b" "token_counter b \<le> token_counter c"
    using assms by (simp_all add: frame_ok_def)
  have split: "{token_counter a <.. token_counter c} =
      {token_counter a <.. token_counter b} \<union> {token_counter b <.. token_counter c}"
    using le by auto
  have keep: "token_store c k = token_store a k"
    if "k \<notin> make_token ` {token_counter a <.. token_counter c}" for k
  proof -
    from that split have "k \<notin> make_token ` {token_counter a <.. token_counter b}"
      and "k \<notin> make_token ` {token_counter b <.. token_counter c}" by auto
    then show ?thesis using assms by (simp add: frame_ok_def)
  qed
  have "make_token j \<in> dom (token_store c)" if "j \<in> {token_counter a <.. token_counter c}" for j
  proof (cases "j \<le> token_counter b")
    case True
    have "make_token ` {token_counter a <.. token_counter b} \<subseteq> dom (token_store b)"
      using assms(1) by (simp add: frame_ok_def)
    from this have "make_token j \<in> dom (token_store b)"
      by (rule make_token_in_dom) (use that True in auto)
    moreover have "make_token j \<notin> make_token ` {token_counter b <.. token_counter c}"
      using True by (rule make_token_notin)
    then have "token_store c (make_token j) = token_store b (make_token j)"
      using assms(2) by (simp add: frame_ok_def)
    ultimately show ?thesis by (simp add: dom_def)
  next
    case False
    have "make_token ` {token_counter b <.. token_counter c} \<subseteq> dom (token_store c)"
      using assms(2) by (simp add: frame_ok_def)
    from this show ?thesis
      by (rule make_token_in_dom) (use that False in auto)
  qed
  then have "make_token ` {token_counter a <.. token_counter c} \<subseteq> dom (token_store c)"
    by (rule image_subsetI)
  with le keep show ?thesis by (simp add: frame_ok_def)
qed

lemma frame_ok_old:
  "frame_ok m m' \<Longrightarrow> j \<le> token_counter m \<Longrightarrow>
   token_store m' (make_token j) = token_store m (make_token j)"
  using make_token_notin [of j "token_counter m" "token_counter m'"]
  by (simp add: frame_ok_def)

lemma frame_ok_tokenize_value: "frame_ok m (snd (tokenize_value x m))"
proof -
  have "{token_counter m <.. Suc (token_counter m)} = {Suc (token_counter m)}" by auto
  then show ?thesis by (simp add: tokenize_value_eq frame_ok_def)
qed

lemma tokenize_value_lookup:
  "token_store (snd (tokenize_value x m)) (make_token (Suc (token_counter m))) = Some x"
  by (simp add: tokenize_value_eq)

lemma tokenize_value_counter:
  "token_counter (snd (tokenize_value x m)) = Suc (token_counter m)"
  by (simp add: tokenize_value_eq)

lemma tokenize_value_fst:
  "fst (tokenize_value x m) = tagged (make_token (Suc (token_counter m)))"
  by (simp add: tokenize_value_eq)

lemma tokenize_items_counter:
  "token_counter (snd (tokenize_items xs m)) = token_counter m + length xs"
  by (induction xs arbitrary: m) (simp_all add: split_beta tokenize_value_counter)

lemma tokenize_items_length: "length (fst (tokenize_items xs m)) = length xs"
  by (induction xs arbitrary: m) (simp_all add: split_beta)

lemma frame_ok_tokenize_items: "frame_ok m (snd (tokenize_items xs m))"
proof (induction xs arbitrary: m)
  case Nil
  show ?case by (simp add: frame_ok_refl)
next
  case (Cons x xs)
  have "frame_ok m (snd (tokenize_value x m))" by (rule frame_ok_tokenize_value)
  moreover have "frame_ok (snd (tokenize_value x m)) (snd (tokenize_items xs (snd (tokenize_value x m))))"
    by (rule Cons.IH)
  ultimately show ?case by (simp add: split_beta) (rule frame_ok_trans)
qed

text \<open>Unmasking the tokens of a list, in any later state of the vault, gives the list back.\<close>

lemma tokenize_items_roundtrip:
  "frame_ok (snd (tokenize_items xs m)) m' \<Longrightarrow>
   map (detokenize_value m') (fst (tokenize_items xs m)) = xs"
proof (induction xs arbitrary: m)
  case Nil
  show ?case by simp
next
  case (Cons x xs)
  let ?m1 = "snd (tokenize_value x m)"
  let ?m2 = "snd (tokenize_items xs ?m1)"
  from Cons.prems have fr: "frame_ok ?m2 m'" by (simp add: split_beta)
  have tail: "map (detokenize_value m') (fst (tokenize_items xs ?m1)) = xs"
    using fr by (rule Cons.IH)
  have "frame_ok ?m1 ?m2" by (rule frame_ok_tokenize_items)
  then have "frame_ok ?m1 m'" using fr by (rule frame_ok_trans)
  then have "token_store m' (make_token (Suc (token_counter m))) =
      token_store ?m1 (make_token (Suc (token_counter m)))"
    by (rule frame_ok_old) (simp add: tokenize_value_counter)
  then have "token_store m' (make_token (Suc (token_counter m))) = Some x"
    by (simp add: tokenize_value_lookup)
  then have "detokenize_value m' (fst (tokenize_value x m)) = x"
    by (simp add: tokenize_value_fst detokenize_tagged)
  with tail show ?case by (simp add: split_beta)
qed

section \<open>Masking and unmasking fields\<close>

lemma iterable_or_absent_cases:
  assumes "iterable_or_absent ov"
  obtains (absent) "ov = None" | (iter) v items where "ov = Some v" "py_iter v = Inr items"
  using assms by (auto simp add: iterable_or_absent_def split: option.splits sum.splits)

lemma iterable_or_absent_simps [simp]:
  "iterable_or_absent None" "iterable_or_absent (Some (PList xs))"
  "iterable_or_absent (Some (PStr s))" "iterable_or_absent (Some (PDict kvs))"
  "\<not> iterable_or_absent (Some PNone)" "\<not> iterable_or_absent (Some (PBool b))"
  "\<not> iterable_or_absent (Some (PInt i))"
  by (simp_all add: iterable_or_absent_def)

lemma tokenize_scalar_field_ok:
  "\<exists>t' m'. tokenize_scalar_field f (t, m) = (t', m') \<and> frame_ok m m' \<and>
     (\<forall>g. g \<noteq> f \<longrightarrow> t' g = t g) \<and>
     (\<forall>v. t f = Some v \<longrightarrow> truthy v \<longrightarrow>
        (\<exists>w. t' f = Some w \<and> (\<forall>m''. frame_ok m' m'' \<longrightarrow> detokenize_value m'' w = v)))"
proof (cases "t f")
  case None
  then show ?thesis by (simp add: tokenize_scalar_field_def frame_ok_refl)
next
  case (Some v)
  show ?thesis
  proof (cases "truthy v")
    case False
    with Some show ?thesis by (simp add: tokenize_scalar_field_def frame_ok_refl)
  next
    case True
    let ?m1 = "snd (tokenize_value v m)"
    let ?w = "fst (tokenize_value v m)"
    have eq: "tokenize_scalar_field f (t, m) = (t(f \<mapsto> ?w), ?m1)"
      using Some True by (simp add: tokenize_scalar_field_def split_beta)
    have "detokenize_value m'' ?w = v" if "frame_ok ?m1 m''" for m''
    proof -
      have "token_store m'' (make_token (Suc (token_counter m))) =
          token_store ?m1 (make_token (Suc (token_counter m)))"
        using that by (rule frame_ok_old) (simp add: tokenize_value_counter)
      then show ?thesis
        by (simp add: tokenize_value_lookup tokenize_value_fst detokenize_tagged)
    qed
    then show ?thesis using eq Some True by (simp add: frame_ok_tokenize_value)
  qed
qed

lemma tokenize_seq_field_ok:
  assumes "iterable_or_absent (t f)"
  shows "\<exists>t' m'. tokenize_seq_field f (t, m) = (Inr t', m') \<and> frame_ok m m' \<and>
     (\<forall>g. g \<noteq> f \<longrightarrow> t' g = t g) \<and> iterable_or_absent (t' f) \<and>
     (\<forall>xs. t f = Some (PList xs) \<longrightarrow> xs \<noteq> [] \<longrightarrow>
        (\<exists>ts. t' f = Some (PList ts) \<and>
           (\<forall>m''. frame_ok m' m'' \<longrightarrow> map (detokenize_value m'') ts = xs)))"
  using assms
proof (cases rule: iterable_or_absent_cases)
  case absent
  then show ?thesis by (simp add: tokenize_seq_field_def frame_ok_refl)
next
  case (iter v items)
  show ?thesis
  proof (cases "truthy v")
    case False
    with iter assms show ?thesis by (auto simp add: tokenize_seq_field_def frame_ok_refl)
  next
    case True
    let ?m1 = "snd (tokenize_items items m)"
    let ?ts = "fst (tokenize_items items m)"
    have eq: "tokenize_seq_field f (t, m) = (Inr (t(f \<mapsto> PList ?ts)), ?m1)"
      using iter True by (simp add: tokenize_seq_field_def split_beta)
    have rt: "map (detokenize_value m'') ?ts = xs" if "frame_ok ?m1 m''" "v = PList xs" for m'' xs
      using that iter tokenize_items_roundtrip [of items m m''] by simp
    show ?thesis using eq iter rt by (simp add: frame_ok_tokenize_items)
  qed
qed

lemma detokenize_value_not_tokenized: "\<not> is_tokenized v \<Longrightarrow> detokenize_value m v = v"
  by (auto simp add: is_tokenized_def detokenize_value_def split: pyval.splits)

lemma detokenize_scalar_field_eq:
  "detokenize_scalar_field m f d =
     (case d f of None \<Rightarrow> d | Some v \<Rightarrow> d(f \<mapsto> detokenize_value m v))"
  by (auto simp add: detokenize_scalar_field_def detokenize_value_not_tokenized map_upd_triv
      split: option.splits)

lemma detokenize_seq_field_ok:
  assumes "iterable_or_absent (d f)"
  shows "\<exists>d'. detokenize_seq_field m f d = Inr d' \<and> (\<forall>g. g \<noteq> f \<longrightarrow> d' g = d g) \<and>
     (d f = None \<longrightarrow> d' f = None) \<and>
     (\<forall>xs. d f = Some (PList xs) \<longrightarrow> d' f = Some (PList (map (detokenize_value m) xs)))"
  using assms
  by (cases rule: iterable_or_absent_cases) (auto simp add: detokenize_seq_field_def)

section \<open>Masking and unmasking records\<close>

text \<open>What masking one record gives, when the two sequence fields can be iterated.\<close>

lemma tokenize_study_ok:
  assumes inv: "iterable_or_absent (r ''investigators'')"
    and sites: "iterable_or_absent (r ''sites'')"
  shows "\<exists>t m'. tokenize_study r m = (Inr t, m') \<and> frame_ok m m' \<and>
     t ''_skyflow_protected'' = Some (PBool True) \<and>
     (\<forall>g. g \<noteq> ''lead_sponsor'' \<longrightarrow> g \<noteq> ''investigators'' \<longrightarrow> g \<noteq> ''sites'' \<longrightarrow>
          g \<noteq> ''_skyflow_protected'' \<longrightarrow> t g = r g) \<and>
     iterable_or_absent (t ''investigators'') \<and> iterable_or_absent (t ''sites'') \<and>
     (\<forall>v. r ''lead_sponsor'' = Some v \<longrightarrow> truthy v \<longrightarrow>
        (\<exists>w. t ''lead_sponsor'' = Some w \<and>
           (\<forall>m''. frame_ok m' m'' \<longrightarrow> detokenize_value m'' w = v))) \<and>
     (\<forall>xs. r ''investigators'' = Some (PList xs) \<longrightarrow> xs \<noteq> [] \<longrightarrow>
        (\<exists>ts. t ''investigators'' = Some (PList ts) \<and>
           (\<forall>m''. frame_ok m' m'' \<longrightarrow> map (detokenize_value m'') ts = xs))) \<and>
     (\<forall>xs. r ''sites'' = Some (PList xs) \<longrightarrow> xs \<noteq> [] \<longrightarrow>
        (\<exists>ts. t ''sites'' = Some (PList ts) \<and>
           (\<forall>m''. frame_ok m' m'' \<longrightarrow> map (detokenize_value m'') ts = xs)))"
proof -
  let ?t0 = "r(''_skyflow_protected'' \<mapsto> PBool True)"
  obtain t1 m1 where s1: "tokenize_scalar_field ''lead_sponsor'' (?t0, m) = (t1, m1)"
    and f1: "frame_ok m m1"
    and o1: "\<And>g. g \<noteq> ''lead_sponsor'' \<Longrightarrow> t1 g = ?t0 g"
    and r1: "\<And>v. ?t0 ''lead_sponsor'' = Some v \<Longrightarrow> truthy v \<Longrightarrow>
        \<exists>w. t1 ''lead_sponsor'' = Some w \<and> (\<forall>m''. frame_ok m1 m'' \<longrightarrow> detokenize_value m'' w = v)"
    using tokenize_scalar_field_ok [of "''lead_sponsor''" ?t0 m] by blast
  have "iterable_or_absent (t1 ''investigators'')" using inv by (simp add: o1)
  then obtain t2 m2 where s2: "tokenize_seq_field ''investigators'' (t1, m1) = (Inr t2, m2)"
    and f2: "frame_ok m1 m2"
    and o2: "\<And>g. g \<noteq> ''investigators'' \<Longrightarrow> t2 g = t1 g"
    and i2: "iterable_or_absent (t2 ''investigators'')"
    and r2: "\<And>xs. t1 ''investigators'' = Some (PList xs) \<Longrightarrow> xs \<noteq> [] \<Longrightarrow>
        \<exists>ts. t2 ''investigators'' = Some (PList ts) \<and>
           (\<forall>m''. frame_ok m2 m'' \<longrightarrow> map (detokenize_value m'') ts = xs)"
    using tokenize_seq_field_ok [of t1 "''investigators''" m1] by blast
  have "iterable_or_absent (t2 ''sites'')" using sites by (simp add: o1 o2)
  then obtain t3 m3 where s3: "tokenize_seq_field ''sites'' (t2, m2) = (Inr t3, m3)"
    and f3: "frame_ok m2 m3"
    and o3: "\<And>g. g \<noteq> ''sites'' \<Longrightarrow> t3 g = t2 g"
    and i3: "iterable_or_absent (t3 ''sites'')"
    and r3: "\<And>xs. t2 ''sites'' = Some (PList xs) \<Longrightarrow> xs \<noteq> [] \<Longrightarrow>
        \<exists>ts. t3 ''sites'' = Some (PList ts) \<and>
           (\<forall>m''. frame_ok m3 m'' \<longrightarrow> map (detokenize_value m'') ts = xs)"
    using tokenize_seq_field_ok [of t2 "''sites''" m2] by blast
  have eq: "tokenize_study r m = (Inr t3, m3)"
    by (simp add: tokenize_study_def s1 s2 s3)
  have f13: "frame_ok m1 m3" using f2 f3 by (rule frame_ok_trans)
  have f03: "frame_ok m m3" using f1 f13 by (rule frame_ok_trans)
  have flag: "t3 ''_skyflow_protected'' = Some (PBool True)" by (simp add: o1 o2 o3)
  have others: "t3 g = r g" if "g \<noteq> ''lead_sponsor''" "g \<noteq> ''investigators''" "g \<noteq> ''sites''"
      "g \<noteq> ''_skyflow_protected''" for g
    using that by (simp add: o1 o2 o3)
  have lead: "\<exists>w. t3 ''lead_sponsor'' = Some w \<and>
       (\<forall>m''. frame_ok m3 m'' \<longrightarrow> detokenize_value m'' w = v)"
    if "r ''lead_sponsor'' = Some v" "truthy v" for v
  proof -
    from that have "?t0 ''lead_sponsor'' = Some v" by simp
    from r1 [OF this that(2)] obtain w where w: "t1 ''lead_sponsor'' = Some w"
      and d: "\<And>m''. frame_ok m1 m'' \<Longrightarrow> detokenize_value m'' w = v" by blast
    have "t3 ''lead_sponsor'' = Some w" using w by (simp add: o2 o3)
    moreover have "detokenize_value m'' w = v" if "frame_ok m3 m''" for m''
      using f13 that by (rule d [OF frame_ok_trans])
    ultimately show ?thesis by blast
  qed
  have invs: "\<exists>ts. t3 ''investigators'' = Some (PList ts) \<and>
       (\<forall>m''. frame_ok m3 m'' \<longrightarrow> map (detokenize_value m'') ts = xs)"
    if "r ''investigators'' = Some (PList xs)" "xs \<noteq> []" for xs
  proof -
    from that have "t1 ''investigators'' = Some (PList xs)" by (simp add: o1)
    from r2 [OF this that(2)] obtain ts where ts: "t2 ''investigators'' = Some (PList ts)"
      and d: "\<And>m''. frame_ok m2 m'' \<Longrightarrow> map (detokenize_value m'') ts = xs" by blast
    have "t3 ''investigators'' = Some (PList ts)" using ts by (simp add: o3)
    moreover have "map (detokenize_value m'') ts = xs" if "frame_ok m3 m''" for m''
      using f3 that by (rule d [OF frame_ok_trans])
    ultimately show ?thesis by blast
  qed
  have sts: "\<exists>ts. t3 ''sites'' = Some (PList ts) \<and>
       (\<forall>m''. frame_ok m3 m'' \<longrightarrow> map (detokenize_value m'') ts = xs)"
    if "r ''sites'' = Some (PList xs)" "xs \<noteq> []" for xs
  proof -
    from that have "t2 ''sites'' = Some (PList xs)" by (simp add: o1 o2)
    from r3 [OF this that(2)] show ?thesis .
  qed
  have i3': "iterable_or_absent (t3 ''investigators'')" using i2 by (simp add: o3)
  show ?thesis
    using eq f03 flag others i3' i3 lead invs sts by blast
qed

lemma detokenize_study_ok:
  assumes inv: "iterable_or_absent (t ''investigators'')"
    and sites: "iterable_or_absent (t ''sites'')"
  shows "\<exists>d. detokenize_study t m = (Inr d, m) \<and>
     d ''_skyflow_protected'' = Some (PBool False) \<and>
     (\<forall>g. g \<noteq> ''lead_sponsor'' \<longrightarrow> g \<noteq> ''investigators'' \<longrightarrow> g \<noteq> ''sites'' \<longrightarrow>
          g \<noteq> ''_skyflow_protected'' \<longrightarrow> d g = t g) \<and>
     d ''lead_sponsor'' = map_option (detokenize_value m) (t ''lead_sponsor'') \<and>
     (\<forall>xs. t ''investigators'' = Some (PList xs) \<longrightarrow>
          d ''investigators'' = Some (PList (map (detokenize_value m) xs))) \<and>
     (\<forall>xs. t ''sites'' = Some (PList xs) \<longrightarrow>
          d ''sites'' = Some (PList (map (detokenize_value m) xs)))"
proof -
  let ?d1 = "detokenize_scalar_field m ''lead_sponsor'' t"
  have o1: "?d1 g = t g" if "g \<noteq> ''lead_sponsor''" for g
    using that by (simp add: detokenize_scalar_field_eq split: option.splits)
  have l1: "?d1 ''lead_sponsor'' = map_option (detokenize_value m) (t ''lead_sponsor'')"
    by (simp add: detokenize_scalar_field_eq split: option.splits)
  have "iterable_or_absent (?d1 ''investigators'')" using inv by (simp add: o1)
  then obtain d2 where s2: "detokenize_seq_field m ''investigators'' ?d1 = Inr d2"
    and o2: "\<And>g. g \<noteq> ''investigators'' \<Longrightarrow> d2 g = ?d1 g"
    and r2: "\<And>xs. ?d1 ''investigators'' = Some (PList xs) \<Longrightarrow>
        d2 ''investigators'' = Some (PList (map (detokenize_value m) xs))"
    using detokenize_seq_field_ok [of ?d1 "''investigators''" m] by blast
  have "iterable_or_absent (d2 ''sites'')" using sites by (simp add: o1 o2)
  then obtain d3 where s3: "detokenize_seq_field m ''sites'' d2 = Inr d3"
    and o3: "\<And>g. g \<noteq> ''sites'' \<Longrightarrow> d3 g = d2 g"
    and r3: "\<And>xs. d2 ''sites'' = Some (PList xs) \<Longrightarrow>
        d3 ''sites'' = Some (PList (map (detokenize_value m) xs))"
    using detokenize_seq_field_ok [of d2 "''sites''" m] by blast
  let ?d = "d3(''_skyflow_protected'' \<mapsto> PBool False)"
  have eq: "detokenize_study t m = (Inr ?d, m)"
    by (simp add: detokenize_study_def s2 s3)
  have lead: "?d ''lead_sponsor'' = map_option (detokenize_value m) (t ''lead_sponsor'')"
    by (simp add: o3 o2 l1)
  have others: "?d g = t g" if "g \<noteq> ''lead_sponsor''" "g \<noteq> ''investigators''" "g \<noteq> ''sites''"
      "g \<noteq> ''_skyflow_protected''" for g
    using that by (simp add: o1 o2 o3)
  have invs: "?d ''investigators'' = Some (PList (map (detokenize_value m) xs))"
    if "t ''investigators'' = Some (PList xs)" for xs
  proof -
    from that have "?d1 ''investigators'' = Some (PList xs)" by (simp add: o1)
    from r2 [OF this] show ?thesis by (simp add: o3)
  qed
  have sts: "?d ''sites'' = Some (PList (map (detokenize_value m) xs))"
    if "t ''sites'' = Some (PList xs)" for xs
  proof -
    from that have "d2 ''sites'' = Some (PList xs)" by (simp add: o1 o2)
    from r3 [OF this] show ?thesis by simp
  qed
  have flag: "?d ''_skyflow_protected'' = Some (PBool False)" by simp
  show ?thesis using eq flag others lead invs sts by blast
qed

lemma tokenize_batch_single:
  "tokenize_batch [r] m =
     (case tokenize_study r m of (Inl e, m1) \<Rightarrow> (Inl e, m1) | (Inr t, m1) \<Rightarrow> (Inr [t], m1))"
  by (simp split: prod.splits sum.splits)

text \<open>
  C1 (amended).  For every record whose \<open>investigators\<close> and \<open>sites\<close> fields are each
  absent or iterable (a list, a string or a dict), masking the record as a batch of one
  and unmasking the result succeeds, and recovers the original value of
  \<open>lead_sponsor\<close> when it is present and non-empty (whatever its type), and of
  \<open>investigators\<close> and of \<open>sites\<close> when they are non-empty lists, element by element.
\<close>

theorem mask_unmask_roundtrip:
  assumes "iterable_or_absent (r ''investigators'')"
    and "iterable_or_absent (r ''sites'')"
  shows "\<exists>d. mask_then_unmask r m = Inr d \<and>
     (\<forall>v. r ''lead_sponsor'' = Some v \<longrightarrow> truthy v \<longrightarrow> d ''lead_sponsor'' = Some v) \<and>
     (\<forall>xs. r ''investigators'' = Some (PList xs) \<longrightarrow> xs \<noteq> [] \<longrightarrow>
          d ''investigators'' = Some (PList xs)) \<and>
     (\<forall>xs. r ''sites'' = Some (PList xs) \<longrightarrow> xs \<noteq> [] \<longrightarrow> d ''sites'' = Some (PList xs))"
proof -
  from tokenize_study_ok [OF assms, of m]
  obtain t m' where tok: "tokenize_study r m = (Inr t, m')"
    and it: "iterable_or_absent (t ''investigators'')" "iterable_or_absent (t ''sites'')"
    and lead: "\<And>v. r ''lead_sponsor'' = Some v \<Longrightarrow> truthy v \<Longrightarrow>
        \<exists>w. t ''lead_sponsor'' = Some w \<and> (\<forall>m''. frame_ok m' m'' \<longrightarrow> detokenize_value m'' w = v)"
    and invs: "\<And>xs. r ''investigators'' = Some (PList xs) \<Longrightarrow> xs \<noteq> [] \<Longrightarrow>
        \<exists>ts. t ''investigators'' = Some (PList ts) \<and>
           (\<forall>m''. frame_ok m' m'' \<longrightarrow> map (detokenize_value m'') ts = xs)"
    and sts: "\<And>xs. r ''sites'' = Some (PList xs) \<Longrightarrow> xs \<noteq> [] \<Longrightarrow>
        \<exists>ts. t ''sites'' = Some (PList ts) \<and>
           (\<forall>m''. frame_ok m' m'' \<longrightarrow> map (detokenize_value m'') ts = xs)"
    by blast
  from detokenize_study_ok [OF it, of m']
  obtain d where det: "detokenize_study t m' = (Inr d, m')"
    and dl: "d ''lead_sponsor'' = map_option (detokenize_value m') (t ''lead_sponsor'')"
    and di: "\<And>xs. t ''investigators'' = Some (PList xs) \<Longrightarrow>
          d ''investigators'' = Some (PList (map (detokenize_value m') xs))"
    and ds: "\<And>xs. t ''sites'' = Some (PList xs) \<Longrightarrow>
          d ''sites'' = Some (PList (map (detokenize_value m') xs))"
    by blast
  have self: "frame_ok m' m'" by (rule frame_ok_refl)
  have eq: "mask_then_unmask r m = Inr d"
    by (simp add: mask_then_unmask_def tokenize_batch_single tok det del: tokenize_batch.simps)
  have 1: "d ''lead_sponsor'' = Some v" if "r ''lead_sponsor'' = Some v" "truthy v" for v
    using lead [OF that] self dl by auto
  have 2: "d ''investigators'' = Some (PList xs)"
    if "r ''investigators'' = Some (PList xs)" "xs \<noteq> []" for xs
    using invs [OF that] self di by auto
  have 3: "d ''sites'' = Some (PList xs)" if "r ''sites'' = Some (PList xs)" "xs \<noteq> []" for xs
    using sts [OF that] self ds by auto
  show ?thesis using eq 1 2 3 by blast
qed

text \<open>
  C1 as stated fails where a sequence field holds a string: the loop iterates the string
  character by character, and unmasking returns the list of its characters.
\<close>

theorem mask_unmask_roundtrip_counterexample:
  "(case mask_then_unmask [''investigators'' \<mapsto> PStr ''ab''] init_manager of
      Inl e \<Rightarrow> None | Inr d \<Rightarrow> d ''investigators'')
     = Some (PList [PStr ''a'', PStr ''b'']) \<and>
   [''investigators'' \<mapsto> PStr ''ab''] ''investigators'' = Some (PStr ''ab'')"
  by code_simp

text \<open>
  A record whose \<open>investigators\<close> is \<open>None\<close> is masked without complaint (the guard of
  \<open>tokenize_batch\<close> skips a falsy value), and unmasking its masked form raises: the guard
  of \<open>detokenize_study\<close> tests only that the key is there.
\<close>

lemma mask_unmask_none_raises:
  "(case mask_then_unmask
            [''lead_sponsor'' \<mapsto> PStr ''Acme Health'', ''investigators'' \<mapsto> PNone]
            init_manager of
      Inl e \<Rightarrow> Some e | Inr d \<Rightarrow> None) = Some TypeError"
  by code_simp

text \<open>The round trip on the record of the spec's scenario, with two investigators.\<close>

theorem mask_unmask_roundtrip_witness:
  "iterable_or_absent
     ([''nct_id'' \<mapsto> PStr ''NCT1'', ''lead_sponsor'' \<mapsto> PStr ''Acme Health'',
       ''investigators'' \<mapsto> PList [PStr ''Dr. A'', PStr ''Dr. B'']] ''investigators'') \<and>
   iterable_or_absent
     ([''nct_id'' \<mapsto> PStr ''NCT1'', ''lead_sponsor'' \<mapsto> PStr ''Acme Health'',
       ''investigators'' \<mapsto> PList [PStr ''Dr. A'', PStr ''Dr. B'']] ''sites'') \<and>
   (\<exists>d. mask_then_unmask
          [''nct_id'' \<mapsto> PStr ''NCT1'', ''lead_sponsor'' \<mapsto> PStr ''Acme Health'',
           ''investigators'' \<mapsto> PList [PStr ''Dr. A'', PStr ''Dr. B'']] init_manager = Inr d \<and>
        d ''lead_sponsor'' = Some (PStr ''Acme Health'') \<and>
        d ''investigators'' = Some (PList [PStr ''Dr. A'', PStr ''Dr. B'']))"
  using mask_unmask_roundtrip
    [of "[''nct_id'' \<mapsto> PStr ''NCT1'', ''lead_sponsor'' \<mapsto> PStr ''Acme Health'',
          ''investigators'' \<mapsto> PList [PStr ''Dr. A'', PStr ''Dr. B'']]" init_manager]
  by auto

section \<open>Unknown tokens, the protection flag, and what unmasking leaves alone\<close>

lemma detokenize_value_unknown: "unknown_token m v \<Longrightarrow> detokenize_value m v = v"
  by (auto simp add: unknown_token_def detokenize_value_def split: pyval.splits)

lemma tokenize_scalar_field_other:
  "g \<noteq> f \<Longrightarrow> fst (tokenize_scalar_field f (t, m)) g = t g"
  by (simp add: tokenize_scalar_field_def split_beta split: option.splits)

lemma tokenize_seq_field_other:
  "tokenize_seq_field f (t, m) = (Inr t', m') \<Longrightarrow> g \<noteq> f \<Longrightarrow> t' g = t g"
  by (auto simp add: tokenize_seq_field_def split_beta split: option.splits if_splits sum.splits)

lemma tokenize_study_flag:
  assumes "tokenize_study r m = (Inr t, m')"
  shows "t ''_skyflow_protected'' = Some (PBool True)"
proof -
  let ?t0 = "r(''_skyflow_protected'' \<mapsto> PBool True)"
  obtain t1 m1 where s1: "tokenize_scalar_field ''lead_sponsor'' (?t0, m) = (t1, m1)"
    by (cases "tokenize_scalar_field ''lead_sponsor'' (?t0, m)")
  have f1: "t1 ''_skyflow_protected'' = Some (PBool True)"
    using tokenize_scalar_field_other [of "''_skyflow_protected''" "''lead_sponsor''" ?t0 m]
    by (simp add: s1)
  from assms obtain t2 m2 where s2: "tokenize_seq_field ''investigators'' (t1, m1) = (Inr t2, m2)"
    and s3: "tokenize_seq_field ''sites'' (t2, m2) = (Inr t, m')"
    by (auto simp add: tokenize_study_def s1 split: prod.splits sum.splits)
  have "t2 ''_skyflow_protected'' = Some (PBool True)"
    using tokenize_seq_field_other [OF s2, of "''_skyflow_protected''"] f1 by simp
  then show ?thesis
    using tokenize_seq_field_other [OF s3, of "''_skyflow_protected''"] by simp
qed

lemma tokenize_batch_flag:
  "tokenize_batch batch m = (Inr ts, m') \<Longrightarrow> t \<in> set ts \<Longrightarrow>
   t ''_skyflow_protected'' = Some (PBool True)"
proof (induction batch arbitrary: m ts)
  case Nil
  then show ?case by simp
next
  case (Cons r batch)
  from Cons.prems(1) obtain t1 m1 ts1 where s1: "tokenize_study r m = (Inr t1, m1)"
    and s2: "tokenize_batch batch m1 = (Inr ts1, m')" and ts: "ts = t1 # ts1"
    by (auto split: prod.splits sum.splits)
  from Cons.prems(2) ts have "t = t1 \<or> t \<in> set ts1" by simp
  then show ?case
  proof
    assume "t = t1"
    with s1 show ?thesis by (simp add: tokenize_study_flag)
  next
    assume "t \<in> set ts1"
    with s2 show ?thesis by (rule Cons.IH)
  qed
qed

lemma tokenize_batch_length:
  "tokenize_batch batch m = (Inr ts, m') \<Longrightarrow> length ts = length batch"
  by (induction batch arbitrary: m ts) (auto split: prod.splits sum.splits)

lemma detokenize_seq_field_other:
  "detokenize_seq_field m f d = Inr d' \<Longrightarrow> g \<noteq> f \<Longrightarrow> d' g = d g"
  by (auto simp add: detokenize_seq_field_def split: option.splits sum.splits)

lemma detokenize_scalar_field_other:
  "g \<noteq> f \<Longrightarrow> detokenize_scalar_field m f d g = d g"
  by (simp add: detokenize_scalar_field_eq split: option.splits)

lemma detokenize_study_flag:
  "detokenize_study s m = (Inr d, m') \<Longrightarrow> d ''_skyflow_protected'' = Some (PBool False)"
  by (auto simp add: detokenize_study_def split: sum.splits)

lemma detokenize_study_state: "snd (detokenize_study s m) = m"
  by (simp add: detokenize_study_def split: sum.splits)

lemma detokenize_study_other:
  assumes "detokenize_study s m = (Inr d, m')"
    and "g \<noteq> ''lead_sponsor''" "g \<noteq> ''investigators''" "g \<noteq> ''sites''"
    and "g \<noteq> ''_skyflow_protected''"
  shows "d g = s g"
proof -
  from assms(1) obtain d2 d3 where
    s2: "detokenize_seq_field m ''investigators''
           (detokenize_scalar_field m ''lead_sponsor'' s) = Inr d2"
    and s3: "detokenize_seq_field m ''sites'' d2 = Inr d3"
    and d: "d = d3(''_skyflow_protected'' \<mapsto> PBool False)"
    by (auto simp add: detokenize_study_def split: sum.splits)
  have "d g = d3 g" using d assms(5) by simp
  also have "\<dots> = d2 g" using s3 assms(4) by (rule detokenize_seq_field_other)
  also have "\<dots> = detokenize_scalar_field m ''lead_sponsor'' s g"
    using s2 assms(3) by (rule detokenize_seq_field_other)
  also have "\<dots> = s g" using assms(2) by (rule detokenize_scalar_field_other)
  finally show ?thesis .
qed

text \<open>
  C6 (amended).  For every record whose \<open>investigators\<close> and \<open>sites\<close> fields are each
  absent or iterable, unmasking returns a record, in which a \<open>lead_sponsor\<close> that
  matches the token pattern with a token that has no vault entry is unchanged, and in
  which each element of a list held by \<open>investigators\<close> or \<open>sites\<close> that matches the
  pattern with such a token is unchanged, at its position.
\<close>

theorem unknown_token_inert:
  assumes "iterable_or_absent (r ''investigators'')"
    and "iterable_or_absent (r ''sites'')"
  shows "\<exists>d. detokenize_study r m = (Inr d, m) \<and>
     (\<forall>v. r ''lead_sponsor'' = Some v \<longrightarrow> unknown_token m v \<longrightarrow> d ''lead_sponsor'' = Some v) \<and>
     (\<forall>xs. r ''investigators'' = Some (PList xs) \<longrightarrow>
        (\<exists>ys. d ''investigators'' = Some (PList ys) \<and> length ys = length xs \<and>
           (\<forall>i<length xs. unknown_token m (xs ! i) \<longrightarrow> ys ! i = xs ! i))) \<and>
     (\<forall>xs. r ''sites'' = Some (PList xs) \<longrightarrow>
        (\<exists>ys. d ''sites'' = Some (PList ys) \<and> length ys = length xs \<and>
           (\<forall>i<length xs. unknown_token m (xs ! i) \<longrightarrow> ys ! i = xs ! i)))"
proof -
  from detokenize_study_ok [OF assms, of m]
  obtain d where det: "detokenize_study r m = (Inr d, m)"
    and dl: "d ''lead_sponsor'' = map_option (detokenize_value m) (r ''lead_sponsor'')"
    and di: "\<And>xs. r ''investigators'' = Some (PList xs) \<Longrightarrow>
          d ''investigators'' = Some (PList (map (detokenize_value m) xs))"
    and ds: "\<And>xs. r ''sites'' = Some (PList xs) \<Longrightarrow>
          d ''sites'' = Some (PList (map (detokenize_value m) xs))"
    by blast
  have 1: "d ''lead_sponsor'' = Some v" if "r ''lead_sponsor'' = Some v" "unknown_token m v" for v
    using that dl by (simp add: detokenize_value_unknown)
  have elems: "length (map (detokenize_value m) xs) = length xs \<and>
      (\<forall>i<length xs. unknown_token m (xs ! i) \<longrightarrow> map (detokenize_value m) xs ! i = xs ! i)"
    for xs
    by (simp add: detokenize_value_unknown)
  have 2: "\<exists>ys. d ''investigators'' = Some (PList ys) \<and> length ys = length xs \<and>
           (\<forall>i<length xs. unknown_token m (xs ! i) \<longrightarrow> ys ! i = xs ! i)"
    if "r ''investigators'' = Some (PList xs)" for xs
    using di [OF that] elems [of xs] by blast
  have 3: "\<exists>ys. d ''sites'' = Some (PList ys) \<and> length ys = length xs \<and>
           (\<forall>i<length xs. unknown_token m (xs ! i) \<longrightarrow> ys ! i = xs ! i)"
    if "r ''sites'' = Some (PList xs)" for xs
    using ds [OF that] elems [of xs] by blast
  show ?thesis using det 1 2 3 by blast
qed

text \<open>A record with a foreign token in \<open>lead_sponsor\<close> and another among its
  \<open>investigators\<close>, unmasked by a fresh manager.\<close>

theorem unknown_token_inert_witness:
  "iterable_or_absent
     ([''lead_sponsor'' \<mapsto> PStr ''[TOKENIZED:sky_000009]'',
       ''investigators'' \<mapsto> PList [PStr ''[TOKENIZED:sky_000010]'']] ''investigators'') \<and>
   iterable_or_absent
     ([''lead_sponsor'' \<mapsto> PStr ''[TOKENIZED:sky_000009]'',
       ''investigators'' \<mapsto> PList [PStr ''[TOKENIZED:sky_000010]'']] ''sites'') \<and>
   unknown_token init_manager (PStr ''[TOKENIZED:sky_000009]'') \<and>
   unknown_token init_manager (PStr ''[TOKENIZED:sky_000010]'') \<and>
   (\<exists>d. detokenize_study
          [''lead_sponsor'' \<mapsto> PStr ''[TOKENIZED:sky_000009]'',
           ''investigators'' \<mapsto> PList [PStr ''[TOKENIZED:sky_000010]'']] init_manager
          = (Inr d, init_manager) \<and>
        d ''lead_sponsor'' = Some (PStr ''[TOKENIZED:sky_000009]'') \<and>
        d ''investigators'' = Some (PList [PStr ''[TOKENIZED:sky_000010]'']))"
proof -
  have u: "unknown_token init_manager (PStr ''[TOKENIZED:sky_000009]'')"
    "unknown_token init_manager (PStr ''[TOKENIZED:sky_000010]'')"
    by (simp_all add: unknown_token_def init_manager_def)
  from unknown_token_inert
    [of "[''lead_sponsor'' \<mapsto> PStr ''[TOKENIZED:sky_000009]'',
          ''investigators'' \<mapsto> PList [PStr ''[TOKENIZED:sky_000010]'']]" init_manager]
  obtain d where d: "detokenize_study
          [''lead_sponsor'' \<mapsto> PStr ''[TOKENIZED:sky_000009]'',
           ''investigators'' \<mapsto> PList [PStr ''[TOKENIZED:sky_000010]'']] init_manager
          = (Inr d, init_manager)"
    and l: "d ''lead_sponsor'' = Some (PStr ''[TOKENIZED:sky_000009]'')"
    and i: "\<exists>ys. d ''investigators'' = Some (PList ys) \<and> length ys = 1 \<and>
          ys ! 0 = PStr ''[TOKENIZED:sky_000010]''"
    using u by auto
  from i obtain ys where "d ''investigators'' = Some (PList ys)" "length ys = 1"
    "ys ! 0 = PStr ''[TOKENIZED:sky_000010]''" by blast
  moreover from this have "ys = [PStr ''[TOKENIZED:sky_000010]'']"
    by (cases ys) auto
  ultimately have "d ''investigators'' = Some (PList [PStr ''[TOKENIZED:sky_000010]''])" by simp
  with d l u show ?thesis by auto
qed

text \<open>
  C6 as stated fails where a sequence field itself holds a string that matches the token
  pattern: the loop iterates the string, and unmasking returns the list of its
  characters instead of the string.
\<close>

theorem unknown_token_inert_counterexample:
  "unknown_token init_manager (PStr ''[TOKENIZED:sky_000009]'') \<and>
   (case fst (detokenize_study [''sites'' \<mapsto> PStr ''[TOKENIZED:sky_000009]''] init_manager) of
      Inl e \<Rightarrow> None | Inr d \<Rightarrow> d ''sites'')
     \<noteq> Some (PStr ''[TOKENIZED:sky_000009]'')"
  by code_simp

text \<open>And where \<open>investigators\<close> is \<open>None\<close>, unmasking raises, whatever the other fields
  hold.\<close>

lemma detokenize_none_raises:
  "fst (detokenize_study
         [''lead_sponsor'' \<mapsto> PStr ''[TOKENIZED:sky_000009]'', ''investigators'' \<mapsto> PNone] m)
     = Inl TypeError"
  by (simp add: detokenize_study_def detokenize_seq_field_def detokenize_scalar_field_def)

text \<open>
  C9.  Every record that \<open>tokenize_batch\<close> returns has \<open>_skyflow_protected\<close> set to
  \<open>True\<close>, and every record that \<open>detokenize_study\<close> returns has it set to \<open>False\<close>,
  whichever of the designated fields the record has.
\<close>

theorem protection_flag:
  "(\<forall>ts m'. tokenize_batch batch m = (Inr ts, m') \<longrightarrow>
       (\<forall>t \<in> set ts. t ''_skyflow_protected'' = Some (PBool True))) \<and>
   (\<forall>d m'. detokenize_study s m = (Inr d, m') \<longrightarrow>
       d ''_skyflow_protected'' = Some (PBool False))"
  using tokenize_batch_flag detokenize_study_flag by blast

text \<open>The scenario of the spec: one record with a sponsor, masked by a fresh manager and
  unmasked again; and a record with no designated field at all.\<close>

theorem protection_flag_witness:
  "(\<exists>t1 t2 m'. tokenize_batch
        [[''nct_id'' \<mapsto> PStr ''NCT1'', ''lead_sponsor'' \<mapsto> PStr ''Acme Health''],
         [''nct_id'' \<mapsto> PStr ''NCT2'']] init_manager = (Inr [t1, t2], m') \<and>
      t1 ''_skyflow_protected'' = Some (PBool True) \<and>
      t2 ''_skyflow_protected'' = Some (PBool True)) \<and>
   (\<exists>d m'. detokenize_study
        [''nct_id'' \<mapsto> PStr ''NCT1'', ''lead_sponsor'' \<mapsto> PStr ''[TOKENIZED:sky_000001]'',
         ''_skyflow_protected'' \<mapsto> PBool True] init_manager = (Inr d, m') \<and>
      d ''_skyflow_protected'' = Some (PBool False))"
proof -
  obtain ts m' where 1: "tokenize_batch
        [[''nct_id'' \<mapsto> PStr ''NCT1'', ''lead_sponsor'' \<mapsto> PStr ''Acme Health''],
         [''nct_id'' \<mapsto> PStr ''NCT2'']] init_manager = (Inr ts, m')" and "length ts = 2"
    by (simp add: tokenize_study_def tokenize_scalar_field_def tokenize_seq_field_def
        split_beta)
  then obtain t1 t2 where ts: "ts = [t1, t2]"
    by (cases ts; cases "tl ts") auto
  obtain d m2 where 2: "detokenize_study
        [''nct_id'' \<mapsto> PStr ''NCT1'', ''lead_sponsor'' \<mapsto> PStr ''[TOKENIZED:sky_000001]'',
         ''_skyflow_protected'' \<mapsto> PBool True] init_manager = (Inr d, m2)"
    by (simp add: detokenize_study_def detokenize_scalar_field_def detokenize_seq_field_def
        is_tokenized_def)
  from 1 2 ts protection_flag
    [of "[[''nct_id'' \<mapsto> PStr ''NCT1'', ''lead_sponsor'' \<mapsto> PStr ''Acme Health''],
          [''nct_id'' \<mapsto> PStr ''NCT2'']]" init_manager
        "[''nct_id'' \<mapsto> PStr ''NCT1'', ''lead_sponsor'' \<mapsto> PStr ''[TOKENIZED:sky_000001]'',
          ''_skyflow_protected'' \<mapsto> PBool True]"]
  show ?thesis by auto
qed

text \<open>
  C10.  \<open>detokenize_study\<close> returns the manager as it received it (vault and counter),
  also when it raises; in a returned record every field other than \<open>lead_sponsor\<close>,
  \<open>investigators\<close>, \<open>sites\<close> and \<open>_skyflow_protected\<close> is as in the input; and
  detokenizing the same record again, in the state the first call left, gives the same
  result.
\<close>

theorem detokenize_read_only:
  "snd (detokenize_study s m) = m \<and>
   (\<forall>d. fst (detokenize_study s m) = Inr d \<longrightarrow>
      (\<forall>g. g \<noteq> ''lead_sponsor'' \<longrightarrow> g \<noteq> ''investigators'' \<longrightarrow> g \<noteq> ''sites'' \<longrightarrow>
           g \<noteq> ''_skyflow_protected'' \<longrightarrow> d g = s g)) \<and>
   detokenize_study s (snd (detokenize_study s m)) = detokenize_study s m"
proof -
  have 1: "snd (detokenize_study s m) = m" by (rule detokenize_study_state)
  have 2: "d g = s g" if "fst (detokenize_study s m) = Inr d" "g \<noteq> ''lead_sponsor''"
      "g \<noteq> ''investigators''" "g \<noteq> ''sites''" "g \<noteq> ''_skyflow_protected''" for d g
  proof -
    from that(1) have "detokenize_study s m = (Inr d, snd (detokenize_study s m))"
      by (metis prod.collapse)
    from detokenize_study_other [OF this that(2-5)] show ?thesis .
  qed
  show ?thesis using 1 2 by auto
qed

theorem detokenize_read_only_witness:
  "snd (detokenize_study
          [''nct_id'' \<mapsto> PStr ''NCT1'', ''lead_sponsor'' \<mapsto> PStr ''[TOKENIZED:sky_000001]'']
          \<lparr>token_store = [''sky_000001'' \<mapsto> PStr ''Acme Health''], token_counter = 1\<rparr>)
     = \<lparr>token_store = [''sky_000001'' \<mapsto> PStr ''Acme Health''], token_counter = 1\<rparr> \<and>
   (\<exists>d. fst (detokenize_study
          [''nct_id'' \<mapsto> PStr ''NCT1'', ''lead_sponsor'' \<mapsto> PStr ''[TOKENIZED:sky_000001]'']
          \<lparr>token_store = [''sky_000001'' \<mapsto> PStr ''Acme Health''], token_counter = 1\<rparr>) = Inr d \<and>
        d ''nct_id'' = Some (PStr ''NCT1'') \<and>
        d ''lead_sponsor'' = Some (PStr ''Acme Health''))"
proof -
  let ?s = "[''nct_id'' \<mapsto> PStr ''NCT1'', ''lead_sponsor'' \<mapsto> PStr ''[TOKENIZED:sky_000001]'']"
  let ?m = "\<lparr>token_store = [''sky_000001'' \<mapsto> PStr ''Acme Health''], token_counter = 1\<rparr>"
  obtain d where d: "fst (detokenize_study ?s ?m) = Inr d"
    and l: "d ''lead_sponsor'' = Some (PStr ''Acme Health'')"
    by (simp add: detokenize_study_def detokenize_scalar_field_def detokenize_seq_field_def
        is_tokenized_def detokenize_value_def extract_token_def)
  from detokenize_read_only [of ?s ?m] d have "snd (detokenize_study ?s ?m) = ?m"
    and "d ''nct_id'' = ?s ''nct_id''" by auto
  with d l show ?thesis by auto
qed

section \<open>The vault over a whole run\<close>







lemma inj_make_token: "inj_on make_token A"
  by (rule inj_onI) (rule make_token_inj)





section \<open>The tokens of successive mints\<close>

lemma generate_token_eq:
  "generate_token m = (make_token (Suc (token_counter m)), m\<lparr>token_counter := Suc (token_counter m)\<rparr>)"
  by (simp add: generate_token_def Let_def)

lemma mint_tokens_fst:
  "fst (mint_tokens n m) = map make_token [Suc (token_counter m) ..< Suc (token_counter m) + n]"
proof (induction n arbitrary: m)
  case 0
  show ?case by simp
next
  case (Suc n)
  have "[Suc (token_counter m) ..< Suc (token_counter m) + Suc n] =
      Suc (token_counter m) # [Suc (Suc (token_counter m)) ..< Suc (Suc (token_counter m)) + n]"
    by (simp add: upt_conv_Cons)
  then show ?case
    by (simp add: generate_token_eq split_beta Suc.IH del: upt_Suc)
qed

lemma mint_tokens_counter: "token_counter (snd (mint_tokens n m)) = token_counter m + n"
  by (induction n arbitrary: m) (simp_all add: generate_token_eq split_beta)

lemma distinct_minted: "distinct (map make_token [a ..< b])"
  by (simp add: distinct_map inj_make_token)

lemma length_format_06d_ge: "6 \<le> length (format_06d k)"
  by (simp add: format_06d_def)

text \<open>
  C3 (amended).  The \<open>n\<close> tokens minted in a row by a manager whose counter is \<open>c\<close>
  (\<open>c = 0\<close> for a fresh one, so the first token carries 1) are \<open>sky_\<close> followed by the
  decimal digits of \<open>c + 1\<close>, ..., \<open>c + n\<close>, each zero-padded on the left to at least 6
  digits, and to exactly 6 digits while the counter is below 1000000; the counter grows
  by one with each mint, and the \<open>n\<close> tokens are pairwise distinct.
\<close>

theorem minted_tokens_distinct:
  "fst (mint_tokens n m)
     = map (\<lambda>k. ''sky_'' @ format_06d k) [Suc (token_counter m) ..< Suc (token_counter m) + n] \<and>
   token_counter (snd (mint_tokens n m)) = token_counter m + n \<and>
   distinct (fst (mint_tokens n m)) \<and>
   dec_val (format_06d k) = k \<and>
   6 \<le> length (format_06d k) \<and>
   (k < 1000000 \<longrightarrow> length (format_06d k) = 6)"
proof -
  have "make_token = (\<lambda>k. ''sky_'' @ format_06d k)"
    by (rule ext) (simp add: make_token_def)
  then have "fst (mint_tokens n m)
     = map (\<lambda>k. ''sky_'' @ format_06d k) [Suc (token_counter m) ..< Suc (token_counter m) + n]"
    using mint_tokens_fst [of n m] by simp
  moreover have "distinct (fst (mint_tokens n m))"
    by (simp only: mint_tokens_fst distinct_minted)
  ultimately show ?thesis
    by (simp add: mint_tokens_counter dec_val_format length_format_06d_ge length_format_06d)
qed

text \<open>Three tokens from a fresh manager.\<close>

theorem minted_tokens_distinct_witness:
  "fst (mint_tokens 3 init_manager) = [''sky_000001'', ''sky_000002'', ''sky_000003''] \<and>
   distinct (fst (mint_tokens 3 init_manager)) \<and>
   (42 :: nat) < 1000000 \<and> length (format_06d 42) = 6"
proof -
  have 1: "fst (mint_tokens 3 init_manager) = [''sky_000001'', ''sky_000002'', ''sky_000003'']"
    by code_simp
  from minted_tokens_distinct [of 3 init_manager 42]
  have 2: "distinct (fst (mint_tokens 3 init_manager))"
    and 3: "(42 :: nat) < 1000000 \<longrightarrow> length (format_06d 42) = 6"
    by blast+
  from 3 have "length (format_06d 42) = 6" by simp
  with 1 2 show ?thesis by simp
qed

text \<open>
  C3 as stated fails at the millionth token of a manager: its counter has seven digits,
  and the format pads to a minimum width, it does not truncate.
\<close>

theorem minted_tokens_distinct_counterexample:
  "last (fst (mint_tokens 1000000 init_manager)) = ''sky_1000000'' \<and>
   length (last (fst (mint_tokens 1000000 init_manager))) \<noteq> length ''sky_'' + 6"
proof -
  have "fst (mint_tokens 1000000 init_manager) = map make_token [1 ..< 1000000] @ [make_token 1000000]"
  proof -
    have "[Suc 0 ..< Suc 1000000] = [Suc 0 ..< 1000000] @ [1000000]"
      by (simp only: upt_Suc) simp
    then show ?thesis
      using mint_tokens_fst [of 1000000 init_manager] by (simp add: init_manager_def)
  qed
  then have "last (fst (mint_tokens 1000000 init_manager)) = make_token 1000000"
    by simp
  then show ?thesis by (simp add: make_token_million)
qed

section \<open>The in-memory backend: loading, listing, asking\<close>

text \<open>
  C2.  The code at the claim's input.  \<open>load_data\<close> with no studies raises
  \<open>HTTPException(400)\<close> inside its \<open>try\<close>, and its own \<open>except Exception\<close> turns that into
  \<open>HTTPException(500)\<close>; the store and the manager are as before.
\<close>

theorem load_data_empty: "load_data now cond [] st = (Inl (HTTPException 500), st)"
  by (cases st) (simp add: load_data_def load_data_try_def)

lemma load_data_try_empty: "load_data_try now cond [] st = (Inl (HTTPException 400), st)"
  by (cases st) (simp add: load_data_try_def)

lemma load_data_ok:
  assumes "load_data now cond batch (ds, sk) = (Inr r, ds', sk')"
  shows "batch \<noteq> [] \<and>
     (\<exists>masked. tokenize_batch batch sk = (Inr masked, sk') \<and> studies ds' = masked \<and>
        length masked = length batch) \<and>
     r = \<lparr>lr_studies_loaded = length batch, lr_skyflow_protected = length batch\<rparr>"
proof -
  from assms have ne: "batch \<noteq> []"
    by (auto simp add: load_data_def load_data_try_def)
  from assms ne obtain masked where tok: "tokenize_batch batch sk = (Inr masked, sk')"
    and ds': "studies ds' = masked"
    and r: "r = \<lparr>lr_studies_loaded = length batch, lr_skyflow_protected = length masked\<rparr>"
    by (auto simp add: load_data_def load_data_try_def split: prod.splits sum.splits)
  from tok have "length masked = length batch" by (rule tokenize_batch_length)
  with ne tok ds' r show ?thesis by simp
qed

lemma get_studies_nonempty:
  "studies ds \<noteq> [] \<Longrightarrow>
   get_studies limit ds =
     Inr \<lparr>sr_total = length (studies ds),
          sr_returned = min (int (length (studies ds))) limit,
          sr_studies = py_slice_to (studies ds) limit\<rparr>"
  by (simp add: get_studies_def get_studies_try_def reraise_http_def)

lemma py_slice_to_all: "int (length xs) \<le> limit \<Longrightarrow> py_slice_to xs limit = xs"
  by (simp add: py_slice_to_def)

lemma py_slice_to_take: "0 \<le> limit \<Longrightarrow> py_slice_to xs limit = take (nat limit) xs"
  by (simp add: py_slice_to_def)

lemma load_then_list:
  assumes "load_data now cond batch (ds, sk) = (Inr r, ds', sk')"
  shows "\<exists>masked. tokenize_batch batch sk = (Inr masked, sk') \<and> studies ds' = masked \<and>
     length masked = length batch \<and>
     get_studies limit ds' =
       Inr \<lparr>sr_total = length batch, sr_returned = min (int (length batch)) limit,
            sr_studies = py_slice_to masked limit\<rparr>"
proof -
  from load_data_ok [OF assms] obtain masked where ne: "batch \<noteq> []"
    and tok: "tokenize_batch batch sk = (Inr masked, sk')"
    and ds': "studies ds' = masked" and len: "length masked = length batch"
    by blast
  from ne len ds' have "studies ds' \<noteq> []" by auto
  from get_studies_nonempty [OF this, of limit] tok ds' len show ?thesis by simp
qed

lemma tokenize_study_plain:
  assumes "r ''lead_sponsor'' = None" "r ''investigators'' = None" "r ''sites'' = None"
  shows "tokenize_study r m = (Inr (r(''_skyflow_protected'' \<mapsto> PBool True)), m)"
  using assms
  by (simp add: tokenize_study_def tokenize_scalar_field_def tokenize_seq_field_def)

lemma tokenize_batch_replicate_plain:
  assumes "r ''lead_sponsor'' = None" "r ''investigators'' = None" "r ''sites'' = None"
  shows "tokenize_batch (replicate n r) m
     = (Inr (replicate n (r(''_skyflow_protected'' \<mapsto> PBool True))), m)"
proof (induction n)
  case 0
  show ?case by (simp only: replicate_0 tokenize_batch.simps)
next
  case (Suc n)
  show ?case
    by (simp only: replicate_Suc tokenize_batch.simps tokenize_study_plain [OF assms] Suc.IH
        prod.case sum.case)
qed

lemma load_data_replicate_plain:
  assumes "r ''lead_sponsor'' = None" "r ''investigators'' = None" "r ''sites'' = None"
    and "0 < n"
  shows "load_data now cond (replicate n r) (ds, sk) =
     (Inr \<lparr>lr_studies_loaded = n, lr_skyflow_protected = n\<rparr>,
      \<lparr>studies = replicate n (r(''_skyflow_protected'' \<mapsto> PBool True)),
        metadata = Some \<lparr>md_total_studies = n, md_skyflow_protected = n, md_last_updated = now,
          md_condition = cond, md_skyflow_tokens = token_counter sk\<rparr>\<rparr>,
      sk)"
  using assms(4)
  by (simp add: load_data_def load_data_try_def tokenize_batch_replicate_plain [OF assms(1-3)]
      get_stats_def)

lemma load_data_replicate_empty:
  "0 < n \<Longrightarrow>
   load_data now cond (replicate n Map.empty) (ds, sk) =
     (Inr \<lparr>lr_studies_loaded = n, lr_skyflow_protected = n\<rparr>,
      \<lparr>studies = replicate n [''_skyflow_protected'' \<mapsto> PBool True],
        metadata = Some \<lparr>md_total_studies = n, md_skyflow_protected = n, md_last_updated = now,
          md_condition = cond, md_skyflow_tokens = token_counter sk\<rparr>\<rparr>,
      sk)"
  by (rule load_data_replicate_plain) simp_all

text \<open>
  C4 as stated fails on a batch larger than the limit of the listing: with the default
  \<open>limit = 50\<close>, after loading one record and then 51 records the listing has 50 records.
\<close>

theorem load_replaces_batch_counterexample:
  "(case load_load_list (replicate 1 Map.empty) (replicate 51 Map.empty) 50 of
      Inl e \<Rightarrow> None
    | Inr resp \<Rightarrow> Some (sr_total resp, length (sr_studies resp))) = Some (51, 50) \<and>
   length (replicate 51 (Map.empty :: study)) = 51"
proof -
  have 1: "load_data [] [] (replicate 1 Map.empty) (init_store, init_manager) =
     (Inr \<lparr>lr_studies_loaded = 1, lr_skyflow_protected = 1\<rparr>,
      \<lparr>studies = replicate 1 [''_skyflow_protected'' \<mapsto> PBool True],
        metadata = Some \<lparr>md_total_studies = 1, md_skyflow_protected = 1, md_last_updated = [],
          md_condition = [], md_skyflow_tokens = token_counter init_manager\<rparr>\<rparr>,
      init_manager)"
    by (rule load_data_replicate_empty) simp
  have 2: "load_data [] [] (replicate 51 Map.empty) (ds, init_manager) =
     (Inr \<lparr>lr_studies_loaded = 51, lr_skyflow_protected = 51\<rparr>,
      \<lparr>studies = replicate 51 [''_skyflow_protected'' \<mapsto> PBool True],
        metadata = Some \<lparr>md_total_studies = 51, md_skyflow_protected = 51, md_last_updated = [],
          md_condition = [], md_skyflow_tokens = token_counter init_manager\<rparr>\<rparr>,
      init_manager)" for ds
    by (rule load_data_replicate_empty) simp
  have "load_load_list (replicate 1 Map.empty) (replicate 51 Map.empty) 50
      = get_studies 50 \<lparr>studies = replicate 51 [''_skyflow_protected'' \<mapsto> PBool True],
          metadata = Some \<lparr>md_total_studies = 51, md_skyflow_protected = 51,
            md_last_updated = [], md_condition = [],
            md_skyflow_tokens = token_counter init_manager\<rparr>\<rparr>"
    unfolding load_load_list_def 1 by (simp only: 2 prod.case sum.case)
  then show ?thesis
    by (simp add: get_studies_def get_studies_try_def reraise_http_def py_slice_to_def)
qed

text \<open>
  C5.  After a successful load of a batch, \<open>ask_claude\<close> with a configured client and a
  non-empty question sends the client one prompt, whose data are the first
  \<open>min 40 (size of the batch)\<close> stored records in load order and whose counts are the
  size of the batch and that minimum; when the client answers, the response reports
  \<open>total_studies\<close> the size of the batch and \<open>analyzed_studies\<close> that minimum.
\<close>

theorem ask_sample_cap:
  assumes "load_data now cond batch (ds0, sk0) = (Inr r, ds, sk)"
    and "question \<noteq> []"
  shows "length (studies ds) = length batch \<and>
     ask_claude (Some client) question ds =
       reraise_http
         (case client \<lparr>p_total = length batch, p_analyzing = min 40 (length batch),
                       p_data = take (min 40 (length batch)) (studies ds),
                       p_question = question\<rparr> of
            Inl e \<Rightarrow> Inl e
          | Inr answer \<Rightarrow>
              Inr \<lparr>ar_question = question, ar_answer = answer,
                    ar_total_studies = length batch,
                    ar_analyzed_studies = min 40 (length batch)\<rparr>)"
proof -
  from load_data_ok [OF assms(1)] have ne: "batch \<noteq> []"
    and len: "length (studies ds) = length batch" by auto
  from ne len have "studies ds \<noteq> []" by auto
  moreover have "take (min 40 (length batch)) (studies ds) = take 40 (studies ds)"
    using len by (simp add: min_def)
  moreover have "length (take 40 (studies ds)) = min 40 (length batch)"
    using len by (simp add: min.commute)
  ultimately show ?thesis
    using assms(2) len
    by (simp add: ask_claude_def ask_claude_try_def Let_def cong: sum.case_cong)
qed

text \<open>A batch of 100 records and a client that answers: 40 analyzed of 100.\<close>

theorem ask_sample_cap_witness:
  "\<exists>r ds sk.
     load_data ''t'' ''cancer'' (replicate 100 Map.empty) (init_store, init_manager)
       = (Inr r, ds, sk) \<and>
     ''What phases?'' \<noteq> [] \<and>
     ask_claude (Some (\<lambda>p. Inr ''analysis'')) ''What phases?'' ds =
       Inr \<lparr>ar_question = ''What phases?'', ar_answer = ''analysis'',
            ar_total_studies = 100, ar_analyzed_studies = 40\<rparr>"
proof -
  obtain r ds sk where 1:
    "load_data ''t'' ''cancer'' (replicate 100 Map.empty) (init_store, init_manager)
       = (Inr r, ds, sk)"
    by (simp add: load_data_replicate_empty)
  have 2: "''What phases?'' \<noteq> []" by simp
  from ask_sample_cap [OF 1 2, of "\<lambda>p. Inr ''analysis''"]
  have "ask_claude (Some (\<lambda>p. Inr ''analysis'')) ''What phases?'' ds =
       Inr \<lparr>ar_question = ''What phases?'', ar_answer = ''analysis'',
            ar_total_studies = 100, ar_analyzed_studies = 40\<rparr>"
    by (simp add: reraise_http_def)
  then show ?thesis
    by (intro exI conjI) (rule 1, rule 2, assumption)
qed

section \<open>The cache-backed backend\<close>

text \<open>With no studies the cache-backed handler answers 400 and writes nothing.\<close>

lemma cache_data_empty: "cache_data now cond [] (Some rd) = ((400, CacheError), Some rd)"
  by (simp add: cache_data_def)

lemma trials_all_not_metadata: "''trials:all'' \<noteq> ''trials:metadata''"
  by simp

text \<open>After two successful loads, the listing without a condition is the slice of the
  second batch, as given.\<close>

lemma cache_replaces_batch:
  assumes "a \<noteq> []" "b \<noteq> []"
  shows "cached_get_studies None limit
           (snd (cache_data now2 cond2 b (snd (cache_data now1 cond1 a (Some rd)))))
     = (200, Studies (length b) (min (int (length b)) limit) (py_slice_to b limit))"
  using assms by (simp add: cache_data_def cached_get_studies_def Let_def)

text \<open>The key of an earlier condition keeps the earlier batch.\<close>

lemma cache_keeps_other_condition:
  "cached_get_studies (Some ''cancer'') 50
     (snd (cache_data now2 ''leukemia'' [y] (snd (cache_data now1 ''cancer'' [x] (Some rd)))))
     = (200, Studies 1 1 [x])"
  by (simp add: cache_data_def cached_get_studies_def Let_def lower_def lower_char_def
      py_slice_to_def)

lemma cached_ask_cap:
  assumes "b \<noteq> []" "question \<noteq> []"
  shows "cached_ask_claude (Some client) question (snd (cache_data now cond b (Some rd))) =
     (case client \<lparr>cp_total = length b, cp_analyzing = min 40 (length b),
                   cp_data = take 40 b, cp_question = question\<rparr> of
        Inl e \<Rightarrow> (500, AskError)
      | Inr answer \<Rightarrow>
          (200, Answer \<lparr>ar_question = question, ar_answer = answer,
                         ar_total_studies = length b,
                         ar_analyzed_studies = min 40 (length b)\<rparr>))"
  using assms
  by (simp add: cache_data_def cached_ask_claude_def Let_def min.commute cong: sum.case_cong)

section \<open>Replacing the batch, in both backends\<close>

lemma tokenize_study_other:
  assumes "tokenize_study r m = (Inr t, m')"
    and "g \<noteq> ''lead_sponsor''" "g \<noteq> ''investigators''" "g \<noteq> ''sites''"
    and "g \<noteq> ''_skyflow_protected''"
  shows "t g = r g"
proof -
  let ?t0 = "r(''_skyflow_protected'' \<mapsto> PBool True)"
  obtain t1 m1 where s1: "tokenize_scalar_field ''lead_sponsor'' (?t0, m) = (t1, m1)"
    by (cases "tokenize_scalar_field ''lead_sponsor'' (?t0, m)")
  have o1: "t1 g = ?t0 g"
    using tokenize_scalar_field_other [of g "''lead_sponsor''" ?t0 m] assms(2) by (simp add: s1)
  from assms(1) obtain t2 m2 where s2: "tokenize_seq_field ''investigators'' (t1, m1) = (Inr t2, m2)"
    and s3: "tokenize_seq_field ''sites'' (t2, m2) = (Inr t, m')"
    by (auto simp add: tokenize_study_def s1 split: prod.splits sum.splits)
  have "t g = t2 g" using s3 assms(4) by (rule tokenize_seq_field_other)
  also have "\<dots> = t1 g" using s2 assms(3) by (rule tokenize_seq_field_other)
  also have "\<dots> = r g" using o1 assms(5) by simp
  finally show ?thesis .
qed

text \<open>The record at each position of a masked batch is the masked copy of the record at
  that position of the batch.\<close>

lemma tokenize_batch_pointwise:
  "tokenize_batch batch m = (Inr ts, m') \<Longrightarrow> i < length batch \<Longrightarrow>
   \<exists>m1 m2. tokenize_study (batch ! i) m1 = (Inr (ts ! i), m2)"
proof (induction batch arbitrary: m ts i)
  case Nil
  then show ?case by simp
next
  case (Cons r batch)
  from Cons.prems(1) obtain t1 m1 ts1 where s1: "tokenize_study r m = (Inr t1, m1)"
    and s2: "tokenize_batch batch m1 = (Inr ts1, m')" and ts: "ts = t1 # ts1"
    by (auto split: prod.splits sum.splits)
  show ?case
  proof (cases i)
    case 0
    with s1 ts show ?thesis by auto
  next
    case (Suc j)
    with Cons.prems(2) have "j < length batch" by simp
    from Cons.IH [OF s2 this] Suc ts show ?thesis by simp
  qed
qed

lemma load_data_store_independent:
  assumes "tokenize_batch batch sk = (Inr masked, sk')" "batch \<noteq> []"
  shows "studies (fst (snd (load_data now cond batch (ds, sk)))) = masked"
  using assms by (simp add: load_data_def load_data_try_def)

lemma cache_data_twice:
  assumes "a \<noteq> []" "b \<noteq> []"
  shows "snd (cache_data now2 cond2 b (snd (cache_data now1 cond1 a (Some rd)))) =
     Some (rd(''trials:'' @ lower cond1 \<mapsto> Batch a, ''trials:all'' \<mapsto> Batch a,
              ''trials:metadata'' \<mapsto> Meta (length a) now1 cond1,
              ''trials:'' @ lower cond2 \<mapsto> Batch b, ''trials:all'' \<mapsto> Batch b,
              ''trials:metadata'' \<mapsto> Meta (length b) now2 cond2))"
  using assms by (simp add: cache_data_def Let_def)

lemma cache_keeps_condition:
  assumes "a \<noteq> []" "b \<noteq> []" "cond1 \<noteq> []" "lower cond1 \<noteq> lower cond2"
    "lower cond1 \<noteq> ''all''" "lower cond1 \<noteq> ''metadata''"
  shows "cached_get_studies (Some cond1) limit
           (snd (cache_data now2 cond2 b (snd (cache_data now1 cond1 a (Some rd)))))
     = (200, Studies (length a) (min (int (length a)) limit) (py_slice_to a limit))"
  using assms(3-6)
  by (simp add: cache_data_twice [OF assms(1,2)] cached_get_studies_def Let_def)

text \<open>
  C4 (amended).  After a successful load of \<open>a\<close> followed by a successful load of \<open>b\<close>:

  \<^item> In the in-memory backend the store holds exactly the masked copies of \<open>b\<close>'s
    records, one per record and in \<open>b\<close>'s order: the record at position \<open>i\<close> is what
    \<open>tokenize_study\<close> returned for \<open>b\<close>'s record at position \<open>i\<close>, and agrees with it on
    every key other than \<open>lead_sponsor\<close>, \<open>investigators\<close>, \<open>sites\<close> and
    \<open>_skyflow_protected\<close>.  Nothing of the earlier store is kept: the second load stores
    the same records over any store.  \<open>get_studies\<close> returns the slice \<open>[:limit]\<close> of them
    with \<open>total\<close> the size of \<open>b\<close>: all of them when \<open>limit\<close> is at least that size, the
    first \<open>limit\<close> when \<open>0 \<le> limit\<close>.
  \<^item> In the cache-backed backend, with the cache server available, both loads of the same
    batches succeed too (status 200), and the listing without a condition returns the slice
    \<open>[:limit]\<close> of \<open>b\<close>'s records as given, with \<open>total\<close> the size of \<open>b\<close>.  The key of
    \<open>a\<close>'s condition is not replaced: when that condition differs (ignoring case) from
    \<open>b\<close>'s, from \<open>all\<close> and from \<open>metadata\<close>, the listing under it still returns \<open>a\<close>'s
    records.
\<close>

theorem load_replaces_batch:
  assumes "load_data now1 cond1 a st0 = (Inr r1, ds1, sk1)"
    and "load_data now2 cond2 b (ds1, sk1) = (Inr r2, ds2, sk2)"
  shows "(\<exists>masked. tokenize_batch b sk1 = (Inr masked, sk2) \<and> studies ds2 = masked \<and>
       length masked = length b \<and>
       (\<forall>i<length b.
          (\<exists>m1 m2. tokenize_study (b ! i) m1 = (Inr (masked ! i), m2)) \<and>
          (\<forall>g. g \<noteq> ''lead_sponsor'' \<longrightarrow> g \<noteq> ''investigators'' \<longrightarrow> g \<noteq> ''sites'' \<longrightarrow>
               g \<noteq> ''_skyflow_protected'' \<longrightarrow> (masked ! i) g = (b ! i) g)) \<and>
       (\<forall>ds'. studies (fst (snd (load_data now2 cond2 b (ds', sk1)))) = masked) \<and>
       get_studies limit ds2 =
         Inr \<lparr>sr_total = length b, sr_returned = min (int (length b)) limit,
              sr_studies = py_slice_to masked limit\<rparr> \<and>
       (int (length b) \<le> limit \<longrightarrow> py_slice_to masked limit = masked) \<and>
       (0 \<le> limit \<longrightarrow> py_slice_to masked limit = take (nat limit) masked)) \<and>
     fst (cache_data now1 cond1 a (Some rd)) = (200, Cached (length a)) \<and>
     fst (cache_data now2 cond2 b (snd (cache_data now1 cond1 a (Some rd))))
       = (200, Cached (length b)) \<and>
     cached_get_studies None limit
         (snd (cache_data now2 cond2 b (snd (cache_data now1 cond1 a (Some rd)))))
       = (200, Studies (length b) (min (int (length b)) limit) (py_slice_to b limit)) \<and>
     (cond1 \<noteq> [] \<longrightarrow> lower cond1 \<noteq> lower cond2 \<longrightarrow> lower cond1 \<noteq> ''all'' \<longrightarrow>
      lower cond1 \<noteq> ''metadata'' \<longrightarrow>
        cached_get_studies (Some cond1) limit
            (snd (cache_data now2 cond2 b (snd (cache_data now1 cond1 a (Some rd)))))
          = (200, Studies (length a) (min (int (length a)) limit) (py_slice_to a limit)))"
proof -
  obtain ds0 sk0 where st0: "st0 = (ds0, sk0)" by (cases st0)
  from assms(1) st0 have a: "a \<noteq> []" using load_data_ok [of now1 cond1 a ds0 sk0] by simp
  from load_data_ok [OF assms(2)] have b: "b \<noteq> []" by simp
  from load_then_list [OF assms(2), of limit] obtain masked where
    tok: "tokenize_batch b sk1 = (Inr masked, sk2)" and st: "studies ds2 = masked"
    and len: "length masked = length b"
    and get: "get_studies limit ds2 =
       Inr \<lparr>sr_total = length b, sr_returned = min (int (length b)) limit,
            sr_studies = py_slice_to masked limit\<rparr>"
    by blast
  have pt: "(\<exists>m1 m2. tokenize_study (b ! i) m1 = (Inr (masked ! i), m2)) \<and>
          (\<forall>g. g \<noteq> ''lead_sponsor'' \<longrightarrow> g \<noteq> ''investigators'' \<longrightarrow> g \<noteq> ''sites'' \<longrightarrow>
               g \<noteq> ''_skyflow_protected'' \<longrightarrow> (masked ! i) g = (b ! i) g)"
    if "i < length b" for i
  proof -
    from tokenize_batch_pointwise [OF tok that] obtain m1 m2 where
      s: "tokenize_study (b ! i) m1 = (Inr (masked ! i), m2)" by blast
    have "(masked ! i) g = (b ! i) g" if "g \<noteq> ''lead_sponsor''" "g \<noteq> ''investigators''"
        "g \<noteq> ''sites''" "g \<noteq> ''_skyflow_protected''" for g
      using s that by (rule tokenize_study_other)
    with s show ?thesis by blast
  qed
  have ind: "studies (fst (snd (load_data now2 cond2 b (ds', sk1)))) = masked" for ds'
    using tok b by (rule load_data_store_independent)
  have mem: "\<exists>masked. tokenize_batch b sk1 = (Inr masked, sk2) \<and> studies ds2 = masked \<and>
       length masked = length b \<and>
       (\<forall>i<length b.
          (\<exists>m1 m2. tokenize_study (b ! i) m1 = (Inr (masked ! i), m2)) \<and>
          (\<forall>g. g \<noteq> ''lead_sponsor'' \<longrightarrow> g \<noteq> ''investigators'' \<longrightarrow> g \<noteq> ''sites'' \<longrightarrow>
               g \<noteq> ''_skyflow_protected'' \<longrightarrow> (masked ! i) g = (b ! i) g)) \<and>
       (\<forall>ds'. studies (fst (snd (load_data now2 cond2 b (ds', sk1)))) = masked) \<and>
       get_studies limit ds2 =
         Inr \<lparr>sr_total = length b, sr_returned = min (int (length b)) limit,
              sr_studies = py_slice_to masked limit\<rparr> \<and>
       (int (length b) \<le> limit \<longrightarrow> py_slice_to masked limit = masked) \<and>
       (0 \<le> limit \<longrightarrow> py_slice_to masked limit = take (nat limit) masked)"
    using tok st len pt ind get
    by (intro exI [of _ masked] conjI allI impI) (simp_all add: py_slice_to_all py_slice_to_take)
  have s1: "fst (cache_data now1 cond1 a (Some rd)) = (200, Cached (length a))"
    using a by (simp add: cache_data_def Let_def)
  have s2: "fst (cache_data now2 cond2 b (snd (cache_data now1 cond1 a (Some rd))))
       = (200, Cached (length b))"
    using a b by (simp add: cache_data_def Let_def)
  have c1: "cached_get_studies None limit
         (snd (cache_data now2 cond2 b (snd (cache_data now1 cond1 a (Some rd)))))
       = (200, Studies (length b) (min (int (length b)) limit) (py_slice_to b limit))"
    using a b by (rule cache_replaces_batch)
  have c2: "cached_get_studies (Some cond1) limit
            (snd (cache_data now2 cond2 b (snd (cache_data now1 cond1 a (Some rd)))))
          = (200, Studies (length a) (min (int (length a)) limit) (py_slice_to a limit))"
    if "cond1 \<noteq> []" "lower cond1 \<noteq> lower cond2" "lower cond1 \<noteq> ''all''"
      "lower cond1 \<noteq> ''metadata''"
    using a b that by (rule cache_keeps_condition)
  from mem s1 s2 c1 c2 show ?thesis by blast
qed

text \<open>Loading one record under \<open>cancer\<close>, then two others under \<open>leukemia\<close>, and listing with
  the default limit, in both backends.\<close>

theorem load_replaces_batch_witness:
  "(\<exists>r1 ds1 sk1 r2 ds2 sk2 resp.
     load_data ''t1'' ''cancer'' [[''nct_id'' \<mapsto> PStr ''A1'']] (init_store, init_manager)
       = (Inr r1, ds1, sk1) \<and>
     load_data ''t2'' ''leukemia''
       [[''nct_id'' \<mapsto> PStr ''B1'', ''lead_sponsor'' \<mapsto> PStr ''Acme Health''],
        [''nct_id'' \<mapsto> PStr ''B2'']] (ds1, sk1) = (Inr r2, ds2, sk2) \<and>
     get_studies 50 ds2 = Inr resp \<and> sr_total resp = 2 \<and>
     map (\<lambda>s. s ''nct_id'') (sr_studies resp) = [Some (PStr ''B1''), Some (PStr ''B2'')]) \<and>
   cached_get_studies None 50
     (snd (cache_data ''t2'' ''leukemia''
            [[''nct_id'' \<mapsto> PStr ''B1'', ''lead_sponsor'' \<mapsto> PStr ''Acme Health''],
             [''nct_id'' \<mapsto> PStr ''B2'']]
            (snd (cache_data ''t1'' ''cancer'' [[''nct_id'' \<mapsto> PStr ''A1'']]
                    (Some Map.empty)))))
     = (200, Studies 2 2
          [[''nct_id'' \<mapsto> PStr ''B1'', ''lead_sponsor'' \<mapsto> PStr ''Acme Health''],
           [''nct_id'' \<mapsto> PStr ''B2'']]) \<and>
   cached_get_studies (Some ''cancer'') 50
     (snd (cache_data ''t2'' ''leukemia''
            [[''nct_id'' \<mapsto> PStr ''B1'', ''lead_sponsor'' \<mapsto> PStr ''Acme Health''],
             [''nct_id'' \<mapsto> PStr ''B2'']]
            (snd (cache_data ''t1'' ''cancer'' [[''nct_id'' \<mapsto> PStr ''A1'']]
                    (Some Map.empty)))))
     = (200, Studies 1 1 [[''nct_id'' \<mapsto> PStr ''A1'']])"
proof -
  let ?a = "[[''nct_id'' \<mapsto> PStr ''A1'']] :: study list"
  let ?b = "[[''nct_id'' \<mapsto> PStr ''B1'', ''lead_sponsor'' \<mapsto> PStr ''Acme Health''],
        [''nct_id'' \<mapsto> PStr ''B2'']] :: study list"
  obtain r1 ds1 sk1 where 1:
    "load_data ''t1'' ''cancer'' ?a (init_store, init_manager) = (Inr r1, ds1, sk1)"
    by (simp add: load_data_def load_data_try_def tokenize_study_def
        tokenize_scalar_field_def tokenize_seq_field_def)
  obtain masked0 sk2 where tok: "tokenize_batch ?b sk1 = (Inr masked0, sk2)"
    by (simp add: tokenize_study_def tokenize_scalar_field_def tokenize_seq_field_def
        split_beta)
  then obtain r2 ds2 where 2:
    "load_data ''t2'' ''leukemia'' ?b (ds1, sk1) = (Inr r2, ds2, sk2)"
    by (simp add: load_data_def load_data_try_def)
  have c: "''cancer'' \<noteq> []" "lower ''cancer'' \<noteq> lower ''leukemia''"
    "lower ''cancer'' \<noteq> ''all''" "lower ''cancer'' \<noteq> ''metadata''"
    by (simp_all add: lower_def lower_char_def)
  note inst = load_replaces_batch [OF 1 2, of 50 Map.empty]
  from inst [THEN conjunct1] obtain masked where
    len0: "length masked = length ?b"
    and pt0: "\<forall>i<length ?b.
         (\<exists>m1 m2. tokenize_study (?b ! i) m1 = (Inr (masked ! i), m2)) \<and>
         (\<forall>g. g \<noteq> ''lead_sponsor'' \<longrightarrow> g \<noteq> ''investigators'' \<longrightarrow> g \<noteq> ''sites'' \<longrightarrow>
              g \<noteq> ''_skyflow_protected'' \<longrightarrow> (masked ! i) g = (?b ! i) g)"
    and get0: "get_studies 50 ds2 =
         Inr \<lparr>sr_total = length ?b, sr_returned = min (int (length ?b)) 50,
              sr_studies = py_slice_to masked 50\<rparr>"
    and all0: "int (length ?b) \<le> 50 \<longrightarrow> py_slice_to masked 50 = masked"
    by (elim exE conjE)
  from len0 have len: "length masked = 2" by simp
  from pt0 have pt: "\<forall>i<2. \<forall>g. g \<noteq> ''lead_sponsor'' \<longrightarrow> g \<noteq> ''investigators'' \<longrightarrow> g \<noteq> ''sites'' \<longrightarrow>
               g \<noteq> ''_skyflow_protected'' \<longrightarrow> (masked ! i) g = (?b ! i) g"
    by (simp add: numeral_2_eq_2)
  from get0 have get: "get_studies 50 ds2 =
         Inr \<lparr>sr_total = 2, sr_returned = min 2 50, sr_studies = py_slice_to masked 50\<rparr>"
    by simp
  from all0 have all: "py_slice_to masked 50 = masked" by simp
  from len obtain x y where m: "masked = [x, y]"
    by (cases masked; cases "tl masked") auto
  from pt m have "x ''nct_id'' = Some (PStr ''B1'')" "y ''nct_id'' = Some (PStr ''B2'')"
    by (auto simp add: less_Suc_eq numeral_2_eq_2)
  with m have ids: "map (\<lambda>s. s ''nct_id'') masked = [Some (PStr ''B1''), Some (PStr ''B2'')]"
    by simp
  let ?resp = "\<lparr>sr_total = 2, sr_returned = min 2 50, sr_studies = py_slice_to masked 50\<rparr>"
  have 3: "get_studies 50 ds2 = Inr ?resp" by (rule get)
  have 4: "sr_total ?resp = 2" by simp
  have 5: "map (\<lambda>s. s ''nct_id'') (sr_studies ?resp) = [Some (PStr ''B1''), Some (PStr ''B2'')]"
    using ids all by simp
  have mem: "\<exists>r1 ds1 sk1 r2 ds2 sk2 resp.
     load_data ''t1'' ''cancer'' ?a (init_store, init_manager) = (Inr r1, ds1, sk1) \<and>
     load_data ''t2'' ''leukemia'' ?b (ds1, sk1) = (Inr r2, ds2, sk2) \<and>
     get_studies 50 ds2 = Inr resp \<and> sr_total resp = 2 \<and>
     map (\<lambda>s. s ''nct_id'') (sr_studies resp) = [Some (PStr ''B1''), Some (PStr ''B2'')]"
    by (intro exI conjI) (rule 1, rule 2, rule 3, rule 4, rule 5)
  from inst have c1: "cached_get_studies None 50
     (snd (cache_data ''t2'' ''leukemia'' ?b (snd (cache_data ''t1'' ''cancer'' ?a (Some Map.empty)))))
     = (200, Studies 2 2 ?b)"
    by (simp add: py_slice_to_def)
  from inst c have c2: "cached_get_studies (Some ''cancer'') 50
     (snd (cache_data ''t2'' ''leukemia'' ?b (snd (cache_data ''t1'' ''cancer'' ?a (Some Map.empty)))))
     = (200, Studies 1 1 ?a)"
    by (simp add: py_slice_to_def)
  from mem c1 c2 show ?thesis by (intro conjI)
qed

section \<open>\<open>tokenize_batch\<close> writes only to objects it has made\<close>

lemma length_dict_set [simp]: "length (dict_set a k v h) = length h"
  by (simp add: dict_set_def split: option.splits hobj.splits)

lemma take_dict_set: "n \<le> a \<Longrightarrow> take n (dict_set a k v h) = take n h"
  by (simp add: dict_set_def split: option.splits hobj.splits)

lemma heap_alloc_eq: "heap_alloc obj h = (length h, h @ [obj])"
  by (simp add: heap_alloc_def)

lemma h_scalar_field_frame:
  assumes "h_scalar_field f t (h, m) = (h', m')" "n \<le> t"
  shows "length h' = length h \<and> take n h' = take n h"
  using assms
  by (auto simp add: h_scalar_field_def take_dict_set split: option.splits if_splits prod.splits)

lemma h_seq_field_frame:
  assumes "h_seq_field f t (h, m) = (e, h', m')" "n \<le> t" "n \<le> length h"
  shows "length h \<le> length h' \<and> take n h' = take n h"
  using assms
  by (auto simp add: h_seq_field_def heap_alloc_eq take_dict_set
      split: option.splits if_splits prod.splits sum.splits)

lemma h_tokenize_study_frame:
  assumes "h_tokenize_study study (h, m) = (r, h', m')"
  shows "length h \<le> length h' \<and> take (length h) h' = h"
proof (cases study)
  case (HRef s)
  show ?thesis
  proof (cases "heap_get h s")
    case None
    with HRef assms show ?thesis by (simp add: h_tokenize_study_def)
  next
    case (Some obj)
    show ?thesis
    proof (cases obj)
      case (HList xs)
      with HRef Some assms show ?thesis
        by (auto simp add: h_tokenize_study_def heap_alloc_eq)
    next
      case (HDict kvs)
      let ?t = "length h"
      let ?h1 = "h @ [HDict kvs]"
      let ?h1' = "dict_set ?t ''_skyflow_protected'' (HBool True) ?h1"
      obtain h2 m2 where s1: "h_scalar_field ''lead_sponsor'' ?t (?h1', m) = (h2, m2)"
        by (cases "h_scalar_field ''lead_sponsor'' ?t (?h1', m)")
      obtain e3 h3 m3 where s2: "h_seq_field ''investigators'' ?t (h2, m2) = (e3, h3, m3)"
        by (cases "h_seq_field ''investigators'' ?t (h2, m2)") auto
      obtain e4 h4 m4 where s3: "h_seq_field ''sites'' ?t (h3, m3) = (e4, h4, m4)"
        by (cases "h_seq_field ''sites'' ?t (h3, m3)") auto
      have f1: "length ?h1' = Suc ?t \<and> take ?t ?h1' = h"
        by (simp add: take_dict_set)
      from h_scalar_field_frame [OF s1, of ?t] f1
      have f2: "length h2 = Suc ?t \<and> take ?t h2 = h" by simp
      from h_seq_field_frame [OF s2, of ?t] f2
      have f3: "?t \<le> length h3 \<and> take ?t h3 = h" by simp
      from h_seq_field_frame [OF s3, of ?t] f3
      have f4: "?t \<le> length h4 \<and> take ?t h4 = h" by simp
      from assms HRef Some HDict have "h' = h3 \<or> h' = h4"
        by (auto simp add: h_tokenize_study_def heap_alloc_eq s1 s2 s3 split: option.splits)
      with f3 f4 show ?thesis by auto
    qed
  qed
qed (use assms in \<open>simp_all add: h_tokenize_study_def\<close>)

lemma take_take_le: "n \<le> length h \<Longrightarrow> take (length h) h' = h \<Longrightarrow> take n h' = take n h"
  by (metis min.absorb1 take_take)

lemma h_tokenize_loop_frame:
  "h_tokenize_loop elems (h, m) = (r, h', m') \<Longrightarrow>
   length h \<le> length h' \<and> take (length h) h' = h"
proof (induction elems arbitrary: h m r h' m')
  case Nil
  then show ?case by simp
next
  case (Cons study rest)
  obtain r1 h1 m1 where s1: "h_tokenize_study study (h, m) = (r1, h1, m1)"
    by (cases "h_tokenize_study study (h, m)") auto
  from h_tokenize_study_frame [OF s1]
  have f1: "length h \<le> length h1" "take (length h) h1 = h" by simp_all
  show ?case
  proof (cases r1)
    case (Inl e)
    with Cons.prems s1 f1 show ?thesis by simp
  next
    case (Inr t)
    obtain r2 h2 m2 where s2: "h_tokenize_loop rest (h1, m1) = (r2, h2, m2)"
      by (cases "h_tokenize_loop rest (h1, m1)") auto
    from Cons.IH [OF s2] have f2: "length h1 \<le> length h2" "take (length h1) h2 = h1"
      by simp_all
    from Cons.prems s1 Inr s2 have h': "h' = h2" by (auto split: sum.splits)
    have "take (length h) h2 = take (length h) h1"
      using f1(1) f2(2) by (rule take_take_le)
    with f1 f2 h' show ?thesis by simp
  qed
qed

text \<open>The store after the call, also after a call that raises, begins with the store
  before it.\<close>

lemma h_tokenize_batch_frame:
  "take (length h) (fst (snd (h_tokenize_batch batch (h, m)))) = h"
proof (cases "h_iter h batch")
  case (Inl e)
  then show ?thesis by (simp add: h_tokenize_batch_def)
next
  case (Inr elems)
  obtain r1 h1 m1 where s1: "h_tokenize_loop elems (h, m) = (r1, h1, m1)"
    by (cases "h_tokenize_loop elems (h, m)") auto
  from h_tokenize_loop_frame [OF s1] have f1: "length h \<le> length h1" "take (length h) h1 = h"
    by simp_all
  show ?thesis
  proof (cases r1)
    case (Inl e)
    with Inr s1 f1 show ?thesis by (simp add: h_tokenize_batch_def)
  next
    case (Inr ts)
    with \<open>h_iter h batch = Inr elems\<close> s1 f1 show ?thesis
      by (simp add: h_tokenize_batch_def heap_alloc_eq)
  qed
qed

lemma is_dict_at_dict_set: "is_dict_at h a \<Longrightarrow> is_dict_at (dict_set t k v h) a"
  by (auto simp add: is_dict_at_def dict_set_def heap_get_def nth_list_update
      split: option.splits hobj.splits if_splits)

lemma is_dict_at_append: "is_dict_at h a \<Longrightarrow> is_dict_at (h @ xs) a"
  by (auto simp add: is_dict_at_def heap_get_def nth_append split: if_splits)

lemma is_dict_at_scalar_field:
  "h_scalar_field f t (h, m) = (h', m') \<Longrightarrow> is_dict_at h a \<Longrightarrow> is_dict_at h' a"
  by (auto simp add: h_scalar_field_def is_dict_at_dict_set
      split: option.splits if_splits prod.splits)

lemma is_dict_at_seq_field:
  "h_seq_field f t (h, m) = (e, h', m') \<Longrightarrow> is_dict_at h a \<Longrightarrow> is_dict_at h' a"
  by (auto simp add: h_seq_field_def heap_alloc_eq is_dict_at_dict_set is_dict_at_append
      split: option.splits if_splits prod.splits sum.splits)

lemma h_tokenize_study_new:
  assumes "h_tokenize_study study (h, m) = (Inr t, h', m')"
  shows "t = length h \<and> is_dict_at h' t"
proof -
  from assms obtain s kvs where study: "study = HRef s" and get: "heap_get h s = Some (HDict kvs)"
    by (auto simp add: h_tokenize_study_def heap_alloc_eq
        split: hval.splits option.splits hobj.splits prod.splits)
  let ?t = "length h"
  let ?h1' = "dict_set ?t ''_skyflow_protected'' (HBool True) (h @ [HDict kvs])"
  obtain h2 m2 where s1: "h_scalar_field ''lead_sponsor'' ?t (?h1', m) = (h2, m2)"
    by (cases "h_scalar_field ''lead_sponsor'' ?t (?h1', m)")
  obtain e3 h3 m3 where s2: "h_seq_field ''investigators'' ?t (h2, m2) = (e3, h3, m3)"
    by (cases "h_seq_field ''investigators'' ?t (h2, m2)") auto
  obtain e4 h4 m4 where s3: "h_seq_field ''sites'' ?t (h3, m3) = (e4, h4, m4)"
    by (cases "h_seq_field ''sites'' ?t (h3, m3)") auto
  have "is_dict_at (h @ [HDict kvs]) ?t"
    by (simp add: is_dict_at_def heap_get_def)
  then have "is_dict_at ?h1' ?t" by (rule is_dict_at_dict_set)
  with s1 have "is_dict_at h2 ?t" by (rule is_dict_at_scalar_field)
  with s2 have "is_dict_at h3 ?t" by (rule is_dict_at_seq_field)
  with s3 have d4: "is_dict_at h4 ?t" by (rule is_dict_at_seq_field)
  from assms study get have "t = ?t \<and> h' = h4"
    by (auto simp add: h_tokenize_study_def heap_alloc_eq s1 s2 s3 split: option.splits)
  with d4 show ?thesis by simp
qed

lemma is_dict_at_length: "is_dict_at h a \<Longrightarrow> a < length h"
  by (auto simp add: is_dict_at_def heap_get_def split: if_splits)

lemma is_dict_at_prefix:
  assumes "is_dict_at h a" "length h \<le> length h'" "take (length h) h' = h"
  shows "is_dict_at h' a"
proof -
  from assms(1) have lt: "a < length h" by (rule is_dict_at_length)
  have "h' ! a = take (length h) h' ! a" using lt by simp
  then have "h' ! a = h ! a" by (simp only: assms(3))
  with assms(1,2) lt show ?thesis by (simp add: is_dict_at_def heap_get_def)
qed

lemma h_tokenize_loop_new:
  "h_tokenize_loop elems (h, m) = (Inr ts, h', m') \<Longrightarrow> t \<in> set ts \<Longrightarrow>
   length h \<le> t \<and> is_dict_at h' t"
proof (induction elems arbitrary: h m ts)
  case Nil
  then show ?case by simp
next
  case (Cons study rest)
  from Cons.prems(1) obtain t1 h1 m1 ts1 where
    s1: "h_tokenize_study study (h, m) = (Inr t1, h1, m1)"
    and s2: "h_tokenize_loop rest (h1, m1) = (Inr ts1, h', m')" and ts: "ts = t1 # ts1"
    by (auto split: prod.splits sum.splits)
  from h_tokenize_study_new [OF s1] have t1: "t1 = length h" "is_dict_at h1 t1" by blast+
  from h_tokenize_study_frame [OF s1] have f1: "length h \<le> length h1" by simp
  from h_tokenize_loop_frame [OF s2] have f2: "length h1 \<le> length h'" "take (length h1) h' = h1"
    by simp_all
  from Cons.prems(2) ts have "t = t1 \<or> t \<in> set ts1" by simp
  then show ?case
  proof
    assume "t = t1"
    with t1 is_dict_at_prefix [OF t1(2) f2] show ?thesis by simp
  next
    assume "t \<in> set ts1"
    from Cons.IH [OF s2 this] f1 show ?thesis by simp
  qed
qed

text \<open>
  C8.  \<open>tokenize_batch\<close> leaves every object that existed before the call as it was: the
  store after the call, also after a call that raises, begins with the store before it.
  So the input list, every input record, with exactly the keys and values it had, and
  every list or dict that a record refers to are unchanged.  And what it returns is new:
  the address of a list that did not exist before the call, whose elements are
  references to dicts that did not exist before the call either.
\<close>

theorem tokenize_batch_input_unchanged:
  "take (length h) (fst (snd (h_tokenize_batch batch (h, m)))) = h \<and>
   (\<forall>l. fst (h_tokenize_batch batch (h, m)) = Inr l \<longrightarrow>
      length h \<le> l \<and>
      (\<exists>ts. heap_get (fst (snd (h_tokenize_batch batch (h, m)))) l = Some (HList (map HRef ts)) \<and>
         (\<forall>t \<in> set ts. length h \<le> t \<and>
            is_dict_at (fst (snd (h_tokenize_batch batch (h, m)))) t)))"
proof (intro conjI allI impI)
  show "take (length h) (fst (snd (h_tokenize_batch batch (h, m)))) = h"
    by (rule h_tokenize_batch_frame)
next
  fix l assume res: "fst (h_tokenize_batch batch (h, m)) = Inr l"
  then obtain elems where it: "h_iter h batch = Inr elems"
    by (auto simp add: h_tokenize_batch_def split: sum.splits)
  from res it obtain ts h1 m1 where s1: "h_tokenize_loop elems (h, m) = (Inr ts, h1, m1)"
    by (auto simp add: h_tokenize_batch_def split: sum.splits prod.splits)
  from it s1 have eq: "h_tokenize_batch batch (h, m)
      = (Inr (length h1), h1 @ [HList (map HRef ts)], m1)"
    by (simp add: h_tokenize_batch_def heap_alloc_eq)
  from res eq have l: "l = length h1" by simp
  from h_tokenize_loop_frame [OF s1] have f1: "length h \<le> length h1" by simp
  show "length h \<le> l" using l f1 by simp
  have get: "heap_get (fst (snd (h_tokenize_batch batch (h, m)))) l = Some (HList (map HRef ts))"
    by (simp add: eq l heap_get_def)
  have new: "length h \<le> t \<and> is_dict_at (fst (snd (h_tokenize_batch batch (h, m)))) t"
    if "t \<in> set ts" for t
    using h_tokenize_loop_new [OF s1 that] by (simp add: eq is_dict_at_append)
  show "\<exists>ts. heap_get (fst (snd (h_tokenize_batch batch (h, m)))) l = Some (HList (map HRef ts)) \<and>
         (\<forall>t \<in> set ts. length h \<le> t \<and>
            is_dict_at (fst (snd (h_tokenize_batch batch (h, m)))) t)"
    using get new by blast
qed

text \<open>A store with a list of one record, whose \<open>investigators\<close> is a list object: the
  call returns the new list at address 5, the copy is at 3 and its list of tokens at 4,
  and the objects 0 to 2 are as before.\<close>

theorem tokenize_batch_input_unchanged_witness:
  "fst (h_tokenize_batch (HRef 0)
     ([HList [HRef 1],
       HDict [(''nct_id'', HStr ''NCT1''), (''lead_sponsor'', HStr ''Acme Health''),
              (''investigators'', HRef 2)],
       HList [HStr ''Dr. A'', HStr ''Dr. B'']],
      \<lparr>hm_store = Map.empty, hm_counter = 0\<rparr>)) = Inr 5 \<and>
   take 3 (fst (snd (h_tokenize_batch (HRef 0)
     ([HList [HRef 1],
       HDict [(''nct_id'', HStr ''NCT1''), (''lead_sponsor'', HStr ''Acme Health''),
              (''investigators'', HRef 2)],
       HList [HStr ''Dr. A'', HStr ''Dr. B'']],
      \<lparr>hm_store = Map.empty, hm_counter = 0\<rparr>)))) =
     [HList [HRef 1],
       HDict [(''nct_id'', HStr ''NCT1''), (''lead_sponsor'', HStr ''Acme Health''),
              (''investigators'', HRef 2)],
       HList [HStr ''Dr. A'', HStr ''Dr. B'']] \<and>
   drop 3 (fst (snd (h_tokenize_batch (HRef 0)
     ([HList [HRef 1],
       HDict [(''nct_id'', HStr ''NCT1''), (''lead_sponsor'', HStr ''Acme Health''),
              (''investigators'', HRef 2)],
       HList [HStr ''Dr. A'', HStr ''Dr. B'']],
      \<lparr>hm_store = Map.empty, hm_counter = 0\<rparr>)))) =
     [HDict [(''nct_id'', HStr ''NCT1''), (''lead_sponsor'', HStr ''[TOKENIZED:sky_000001]''),
             (''investigators'', HRef 4), (''_skyflow_protected'', HBool True)],
      HList [HStr ''[TOKENIZED:sky_000002]'', HStr ''[TOKENIZED:sky_000003]''],
      HList [HRef 3]] \<and>
   (\<exists>ts. heap_get (fst (snd (h_tokenize_batch (HRef 0)
     ([HList [HRef 1],
       HDict [(''nct_id'', HStr ''NCT1''), (''lead_sponsor'', HStr ''Acme Health''),
              (''investigators'', HRef 2)],
       HList [HStr ''Dr. A'', HStr ''Dr. B'']],
      \<lparr>hm_store = Map.empty, hm_counter = 0\<rparr>)))) 5 = Some (HList (map HRef ts)) \<and>
      list_all (\<lambda>t. 3 \<le> t) ts)"
proof -
  let ?h = "[HList [HRef 1],
       HDict [(''nct_id'', HStr ''NCT1''), (''lead_sponsor'', HStr ''Acme Health''),
              (''investigators'', HRef 2)],
       HList [HStr ''Dr. A'', HStr ''Dr. B'']]"
  let ?m = "\<lparr>hm_store = Map.empty, hm_counter = 0\<rparr>"
  have 1: "fst (h_tokenize_batch (HRef 0) (?h, ?m)) = Inr 5" by code_simp
  have 2: "drop 3 (fst (snd (h_tokenize_batch (HRef 0) (?h, ?m)))) =
     [HDict [(''nct_id'', HStr ''NCT1''), (''lead_sponsor'', HStr ''[TOKENIZED:sky_000001]''),
             (''investigators'', HRef 4), (''_skyflow_protected'', HBool True)],
      HList [HStr ''[TOKENIZED:sky_000002]'', HStr ''[TOKENIZED:sky_000003]''],
      HList [HRef 3]]" by code_simp
  have len: "length ?h = 3" by simp
  note inst = tokenize_batch_input_unchanged [of ?h "HRef 0" ?m, unfolded len]
  from inst have 3: "take 3 (fst (snd (h_tokenize_batch (HRef 0) (?h, ?m)))) = ?h"
    by (rule conjunct1)
  from inst 1 obtain ts where
    g: "heap_get (fst (snd (h_tokenize_batch (HRef 0) (?h, ?m)))) 5 = Some (HList (map HRef ts))"
    and n: "\<forall>t \<in> set ts. 3 \<le> t" by blast
  from n have "list_all (\<lambda>t. 3 \<le> t) ts" by (simp add: list_all_iff)
  with g have 4: "\<exists>ts. heap_get (fst (snd (h_tokenize_batch (HRef 0) (?h, ?m)))) 5
      = Some (HList (map HRef ts)) \<and> list_all (\<lambda>t. 3 \<le> t) ts" by blast
  from 1 3 2 4 show ?thesis by (intro conjI)
qed

end
